theory Spec2Isabelle
  imports Complex_Main "HOL-Library.Log_Nat"
begin

section \<open>Python values read and written by the two ingest scripts\<close>

text \<open>
  The scripts \<^verbatim>\<open>databento_replay.py\<close> and \<^verbatim>\<open>ibkr_stream.py\<close> read attributes of
  provider objects whose types are not fixed by the source.  An attribute value is one of
  the shapes the source distinguishes.  A date is its day number counted from 1970-01-01
  (\<^verbatim>\<open>d.toordinal() - 719163\<close>); a date-time is a day number, the microseconds elapsed
  since midnight and, when it is timezone-aware, its UTC offset in microseconds.  A finite
  float is the rational number it denotes (\<^verbatim>\<open>nan\<close> and the infinities are not
  values of this model).  A string is a list of 8-bit characters.
\<close>

record pydatetime =
  dt_day :: int
  dt_usec :: int
  dt_utcoffset :: "int option"

datatype pyval =
    PyNone
  | PyInt int
  | PyFloat rat
  | PyStr string
  | PyBytes string
  | PyDate int
  | PyDateTime pydatetime
  | PyList "pyval list"

datatype error = OverflowError | ValueError | TypeError | RangeError | LookupFailed

text \<open>Truth value of an object, as tested by \<^verbatim>\<open>or\<close>, \<^verbatim>\<open>if x:\<close> and \<^verbatim>\<open>not x\<close>.\<close>

fun truthy :: "pyval \<Rightarrow> bool" where
  "truthy PyNone = False"
| "truthy (PyInt n) = (n \<noteq> 0)"
| "truthy (PyFloat q) = (q \<noteq> 0)"
| "truthy (PyStr s) = (s \<noteq> [])"
| "truthy (PyBytes b) = (b \<noteq> [])"
| "truthy (PyDate d) = True"
| "truthy (PyDateTime d) = True"
| "truthy (PyList xs) = (xs \<noteq> [])"

definition py_or :: "pyval \<Rightarrow> pyval \<Rightarrow> pyval" where
  "py_or a b = (if truthy a then a else b)"

subsection \<open>Binary64 arithmetic on finite values\<close>

text \<open>
  Python's \<^verbatim>\<open>/\<close> on two ints, its float operations and \<^verbatim>\<open>float(int)\<close>
  return the binary64 value nearest to the exact result, ties to the even significand.
  \<open>ilog2\<close> is the binary exponent of a positive rational, \<open>round_half_even\<close> rounds the
  scaled significand and \<open>round_double\<close> puts the two together.  Every value rounded by
  the scripts is zero or lies in the normal range, so subnormal precision is not modelled;
  a result of magnitude \<open>2 ^ 1024\<close> or more is an overflow.
\<close>

definition ilog2 :: "rat \<Rightarrow> int" where
  "ilog2 q = (if 1 \<le> q then bitlen \<lfloor>q\<rfloor> - 1 else - bitlen (\<lceil>1 / q\<rceil> - 1))"

definition round_half_even :: "rat \<Rightarrow> int" where
  "round_half_even x =
     (let f = \<lfloor>x\<rfloor>; r = x - of_int f
      in if r < 1 / 2 then f
         else if 1 / 2 < r then f + 1
         else if even f then f else f + 1)"

definition pow2 :: "int \<Rightarrow> rat" where
  "pow2 s = (if 0 \<le> s then 2 ^ nat s else 1 / 2 ^ nat (- s))"

definition round_double :: "rat \<Rightarrow> rat" where
  "round_double q =
     (if q = 0 then 0
      else let s = ilog2 \<bar>q\<bar> - 52;
               m = round_half_even (\<bar>q\<bar> / pow2 s)
           in sgn q * of_int m * pow2 s)"

definition to_double :: "rat \<Rightarrow> error + rat" where
  "to_double q =
     (let r = round_double q in if 2 ^ 1024 \<le> \<bar>r\<bar> then Inl OverflowError else Inr r)"

text \<open>\<^verbatim>\<open>a / b\<close> on ints (the divisor in the source is the literal \<open>1_000_000\<close>).\<close>

definition int_truediv :: "int \<Rightarrow> int \<Rightarrow> error + rat" where
  "int_truediv a b = to_double (of_int a / of_int b)"

text \<open>\<^verbatim>\<open>int(x)\<close> on a finite float truncates toward zero.\<close>

definition float_trunc :: "rat \<Rightarrow> int" where
  "float_trunc q = (if 0 \<le> q then \<lfloor>q\<rfloor> else \<lceil>q\<rceil>)"

subsection \<open>The process environment\<close>

text \<open>
  What the scripts take from the interpreter and the host rather than from their own code:
  the UTC offset (in seconds) of the local timezone at a naive wall-clock second, used by
  \<^verbatim>\<open>datetime.timestamp()\<close> on a naive value; \<^verbatim>\<open>str()\<close> of objects other than ints
  and strings; \<^verbatim>\<open>bytes.decode("utf-8", errors="ignore")\<close>; and the parsers behind
  \<^verbatim>\<open>float(s)\<close> and \<^verbatim>\<open>int(s)\<close> on text (\<open>None\<close> when they raise ValueError).
\<close>

record runtime =
  local_utcoffset :: "int \<Rightarrow> int"
  str_other :: "pyval \<Rightarrow> string"
  decode_utf8_ignore :: "string \<Rightarrow> string"
  parse_float :: "string \<Rightarrow> rat option"
  parse_int :: "string \<Rightarrow> int option"

section \<open>Timestamp normalizer\<close>

text \<open>
  \<^verbatim>\<open>datetime.timestamp()\<close>.  An aware value subtracts the epoch and takes
  \<^verbatim>\<open>total_seconds()\<close>, the int quotient of microseconds by \<open>10 ^ 6\<close>.  A naive value
  is read in the local timezone: whole seconds from \<^verbatim>\<open>mktime\<close>, plus
  \<^verbatim>\<open>microsecond / 1e6\<close>.
\<close>

definition timestamp :: "runtime \<Rightarrow> pydatetime \<Rightarrow> error + rat" where
  "timestamp rt d =
     (case dt_utcoffset d of
        Some off \<Rightarrow> int_truediv (dt_day d * 86400000000 + dt_usec d - off) 1000000
      | None \<Rightarrow>
          (let local = dt_day d * 86400 + dt_usec d div 1000000;
               secs = local - local_utcoffset rt local
           in Inr (round_double
                (of_int secs + round_double (of_int (dt_usec d mod 1000000) / 1000000)))))"

text \<open>\<^verbatim>\<open>int(x.timestamp() * 1000)\<close>.\<close>

definition timestamp_ms :: "runtime \<Rightarrow> pydatetime \<Rightarrow> error + int" where
  "timestamp_ms rt d =
     (case timestamp rt d of
        Inl e \<Rightarrow> Inl e
      | Inr t \<Rightarrow> Inr (float_trunc (round_double (t * 1000))))"

text \<open>\<^verbatim>\<open>dt.datetime.combine(d, dt.time())\<close>: naive midnight of the date.\<close>

definition combine_midnight :: "int \<Rightarrow> pydatetime" where
  "combine_midnight day = \<lparr>dt_day = day, dt_usec = 0, dt_utcoffset = None\<rparr>"

text \<open>
  \<^verbatim>\<open>normalize_ts\<close> (databento_replay.py, lines 50-61).  \<open>Inr None\<close> is the Python
  \<^verbatim>\<open>None\<close> result.  \<^verbatim>\<open>datetime\<close> is tested before \<^verbatim>\<open>date\<close>, as in the source.
\<close>

fun normalize_ts :: "runtime \<Rightarrow> pyval \<Rightarrow> error + int option" where
  "normalize_ts rt PyNone = Inr None"
| "normalize_ts rt (PyDateTime d) = map_sum id Some (timestamp_ms rt d)"
| "normalize_ts rt (PyDate day) = map_sum id Some (timestamp_ms rt (combine_midnight day))"
| "normalize_ts rt (PyInt v) =
     (if v > 1000000000000000
      then map_sum id (\<lambda>q. Some (float_trunc q)) (int_truediv v 1000000)
      else Inr (Some v))"
| "normalize_ts rt (PyFloat v) =
     (if v > 1000000000000000
      then Inr (Some (float_trunc (round_double (v / 1000000))))
      else Inr (Some (float_trunc v)))"
| "normalize_ts rt (PyStr s) = Inr None"
| "normalize_ts rt (PyBytes b) = Inr None"
| "normalize_ts rt (PyList xs) = Inr None"

section \<open>Builtins used by the payload builder\<close>

fun nat_digits :: "nat \<Rightarrow> string" where
  "nat_digits n =
     (if n < 10 then [''0123456789'' ! n]
      else nat_digits (n div 10) @ [''0123456789'' ! (n mod 10)])"

declare nat_digits.simps [simp del]

text \<open>\<^verbatim>\<open>str(n)\<close> for an int.\<close>

definition str_int :: "int \<Rightarrow> string" where
  "str_int i = (if i < 0 then CHR ''-'' # nat_digits (nat (- i)) else nat_digits (nat i))"

text \<open>\<^verbatim>\<open>s.isdigit()\<close> and the value \<^verbatim>\<open>int(s)\<close> of such a string, on ASCII digits.\<close>

definition isdigit :: "string \<Rightarrow> bool" where
  "isdigit s = (s \<noteq> [] \<and> list_all (\<lambda>c. c \<in> set ''0123456789'') s)"

definition digits_value :: "string \<Rightarrow> int" where
  "digits_value s = foldl (\<lambda>acc c. acc * 10 + (of_char c - 48)) 0 s"

text \<open>\<^verbatim>\<open>stringify\<close> (lines 64-69): \<^verbatim>\<open>None\<close>, a decoded bytes object, or \<^verbatim>\<open>str(value)\<close>.\<close>

fun stringify :: "runtime \<Rightarrow> pyval \<Rightarrow> pyval" where
  "stringify rt PyNone = PyNone"
| "stringify rt (PyBytes b) = PyStr (decode_utf8_ignore rt b)"
| "stringify rt (PyInt n) = PyStr (str_int n)"
| "stringify rt (PyStr s) = PyStr s"
| "stringify rt v = PyStr (str_other rt v)"

text \<open>\<^verbatim>\<open>is_numeric_symbol\<close> (lines 71-76).\<close>

fun is_numeric_symbol :: "pyval \<Rightarrow> bool" where
  "is_numeric_symbol (PyInt n) = True"
| "is_numeric_symbol (PyStr s) = isdigit s"
| "is_numeric_symbol v = False"

text \<open>\<^verbatim>\<open>float(x)\<close> and \<^verbatim>\<open>int(x)\<close>.\<close>

fun py_float :: "runtime \<Rightarrow> pyval \<Rightarrow> error + rat" where
  "py_float rt (PyInt n) = to_double (of_int n)"
| "py_float rt (PyFloat q) = Inr q"
| "py_float rt (PyStr s) = (case parse_float rt s of None \<Rightarrow> Inl ValueError | Some q \<Rightarrow> Inr q)"
| "py_float rt (PyBytes s) = (case parse_float rt s of None \<Rightarrow> Inl ValueError | Some q \<Rightarrow> Inr q)"
| "py_float rt v = Inl TypeError"

fun py_int :: "runtime \<Rightarrow> pyval \<Rightarrow> error + int" where
  "py_int rt (PyInt n) = Inr n"
| "py_int rt (PyFloat q) = Inr (float_trunc q)"
| "py_int rt (PyStr s) =
     (if isdigit s then Inr (digits_value s)
      else case parse_int rt s of None \<Rightarrow> Inl ValueError | Some n \<Rightarrow> Inr n)"
| "py_int rt (PyBytes s) =
     (if isdigit s then Inr (digits_value s)
      else case parse_int rt s of None \<Rightarrow> Inl ValueError | Some n \<Rightarrow> Inr n)"
| "py_int rt v = Inl TypeError"

text \<open>
  \<^verbatim>\<open>dt.datetime.utcfromtimestamp(ts_ms / 1000).date()\<close> as a day number.  Within the
  years 1 to 9999 the float quotient is within 16 microseconds of the exact one and
  \<open>ts_ms\<close> is a whole number of milliseconds, so the date is that of the exact quotient;
  outside them the call raises (ValueError or OverflowError, by platform).
\<close>

definition utc_date :: "int \<Rightarrow> error + int" where
  "utc_date ts_ms =
     (let day = ts_ms div 86400000
      in if - 719162 \<le> day \<and> day \<le> 2932896 then Inr day else Inl RangeError)"

text \<open>What \<^verbatim>\<open>json.dumps\<close> accepts as a value.\<close>

fun json_ok :: "pyval \<Rightarrow> bool" where
  "json_ok (PyBytes b) = False"
| "json_ok (PyDate d) = False"
| "json_ok (PyDateTime d) = False"
| "json_ok (PyList xs) = (\<forall>x \<in> set xs. json_ok x)"
| "json_ok v = True"

section \<open>Payloads\<close>

text \<open>
  A payload is the Python dict handed to \<^verbatim>\<open>json.dumps\<close>: keys in insertion order,
  each with its value.  \<open>dict_set\<close> is \<^verbatim>\<open>d[k] = v\<close>.
\<close>

type_synonym payload = "(string \<times> pyval) list"

fun dict_set :: "payload \<Rightarrow> string \<Rightarrow> pyval \<Rightarrow> payload" where
  "dict_set [] k v = [(k, v)]"
| "dict_set ((k', v') # d) k v = (if k' = k then (k, v) # d else (k', v') # dict_set d k v)"

text \<open>
  A provider record, read only through \<^verbatim>\<open>getattr(record, name, None)\<close>: an absent
  attribute reads as \<open>PyNone\<close>.  The fields carry the prefix \<open>r_\<close>.
\<close>

record raw_record =
  r_ts_event :: pyval
  r_price :: pyval
  r_size :: pyval
  r_symbol :: pyval
  r_raw_symbol :: pyval
  r_instrument_id :: pyval
  r_exchange :: pyval
  r_publisher_id :: pyval
  r_exchange_id :: pyval
  r_conditions :: pyval
  r_condition :: pyval

text \<open>\<^verbatim>\<open>build_payload\<close> (lines 125-163); \<open>Inr None\<close> is the \<^verbatim>\<open>None\<close> result.\<close>

definition build_payload :: "runtime \<Rightarrow> raw_record \<Rightarrow> pyval \<Rightarrow> error + payload option" where
  "build_payload rt record symbol_override =
     (let ts_event = r_ts_event record;
          price = r_price record;
          size = r_size record;
          symbol = py_or symbol_override
                     (py_or (py_or (r_symbol record) (r_raw_symbol record))
                        (r_instrument_id record))
      in if ts_event = PyNone \<or> price = PyNone \<or> size = PyNone \<or> symbol = PyNone
         then Inr None
         else case normalize_ts rt ts_event of
           Inl e \<Rightarrow> Inl e
         | Inr None \<Rightarrow> Inr None
         | Inr (Some ts_ms) \<Rightarrow>
             (let exchange = py_or (py_or (r_exchange record) (r_publisher_id record))
                               (r_exchange_id record);
                  conditions0 = py_or (r_conditions record) (r_condition record);
                  conditions = (case conditions0 of PyStr s \<Rightarrow> PyList [PyStr s]
                                | _ \<Rightarrow> conditions0)
              in case py_float rt price of
                   Inl e \<Rightarrow> Inl e
                 | Inr p \<Rightarrow>
                     (case py_int rt size of
                        Inl e \<Rightarrow> Inl e
                      | Inr n \<Rightarrow>
                          (let payload = [(''ts'', PyInt ts_ms), (''price'', PyFloat p),
                                          (''size'', PyInt n),
                                          (''symbol'', stringify rt symbol)];
                               payload = (if exchange \<noteq> PyNone
                                          then dict_set payload ''exchange''
                                                 (stringify rt exchange)
                                          else payload);
                               payload = (if truthy conditions
                                          then dict_set payload ''conditions'' conditions
                                          else payload)
                           in Inr (Some payload)))))"

text \<open>
  A field is present and non-null in an emitted object when the dict has the key with a
  value other than \<^verbatim>\<open>None\<close>.
\<close>

definition has_field :: "payload \<Rightarrow> string \<Rightarrow> bool" where
  "has_field p k = (case map_of p k of None \<Rightarrow> False | Some v \<Rightarrow> v \<noteq> PyNone)"

section \<open>Symbol resolver\<close>

text \<open>
  The collaborators of \<^verbatim>\<open>SymbolResolver\<close>: the remote call
  \<^verbatim>\<open>client.symbology.resolve\<close>, which answers a chunk of identifiers (it may depend on
  the requests made before, and \<open>None\<close> is a raised exception), and the library class
  \<^verbatim>\<open>InstrumentMap\<close> with its \<^verbatim>\<open>insert_json\<close> and \<^verbatim>\<open>resolve\<close>.
\<close>

record ('m, 'r) symbology =
  symbology_resolve :: "int list list \<Rightarrow> int list \<Rightarrow> 'r option"
  insert_json :: "'r \<Rightarrow> 'm \<Rightarrow> 'm"
  map_resolve :: "'m \<Rightarrow> int \<Rightarrow> int \<Rightarrow> string option"

text \<open>
  The resolver object: \<^verbatim>\<open>_map\<close>, \<^verbatim>\<open>_pending\<close>, \<^verbatim>\<open>_pending_set\<close>, and the log of
  the chunks sent to the remote call so far.
\<close>

record 'm resolver =
  imap :: 'm
  pending :: "int list"
  pending_set :: "int set"
  requests :: "int list list"

text \<open>
  A statement that may raise returns the state it reached and the exception, if any.
\<close>

type_synonym 's outcome = "'s \<times> error option"

definition and_then :: "'s outcome \<Rightarrow> ('s \<Rightarrow> 's outcome) \<Rightarrow> 's outcome" where
  "and_then r f = (case r of (s, None) \<Rightarrow> f s | (s, Some e) \<Rightarrow> (s, Some e))"

text \<open>\<^verbatim>\<open>queue\<close> (lines 91-95).\<close>

definition queue :: "int \<Rightarrow> ('m, 'z) resolver_scheme \<Rightarrow> ('m, 'z) resolver_scheme" where
  "queue instrument_id rs =
     (if instrument_id \<in> pending_set rs then rs
      else rs\<lparr>pending_set := insert instrument_id (pending_set rs),
              pending := pending rs @ [instrument_id]\<rparr>)"

text \<open>
  The loop of \<^verbatim>\<open>resolve_pending\<close> (lines 104-114):
  \<^verbatim>\<open>for i in range(0, len(pending), 2000)\<close> with \<^verbatim>\<open>chunk = pending[i : i + 2000]\<close>.
\<close>

function resolve_chunks ::
  "('m, 'r) symbology \<Rightarrow> int list \<Rightarrow> nat \<Rightarrow> ('m, 'z) resolver_scheme
     \<Rightarrow> ('m, 'z) resolver_scheme outcome" where
  "resolve_chunks sy pend i rs =
     (if i < length pend
      then (let chunk = take 2000 (drop i pend);
                rs1 = rs\<lparr>requests := requests rs @ [chunk]\<rparr>
            in case symbology_resolve sy (requests rs) chunk of
                 None \<Rightarrow> (rs1, Some LookupFailed)
               | Some response \<Rightarrow>
                   resolve_chunks sy pend (i + 2000)
                     (rs1\<lparr>imap := insert_json sy response (imap rs1)\<rparr>))
      else (rs, None))"
  by pat_completeness auto
termination
  by (relation "measure (\<lambda>(sy, pend, i, rs). length pend - i)") auto

declare resolve_chunks.simps [simp del]

text \<open>\<^verbatim>\<open>resolve_pending\<close> (lines 97-114).\<close>

definition resolve_pending ::
  "('m, 'r) symbology \<Rightarrow> ('m, 'z) resolver_scheme \<Rightarrow> ('m, 'z) resolver_scheme outcome" where
  "resolve_pending sy rs =
     (if pending rs = [] then (rs, None)
      else resolve_chunks sy (pending rs) 0 (rs\<lparr>pending := [], pending_set := {}\<rparr>))"

text \<open>
  \<^verbatim>\<open>lookup\<close> (lines 116-119); its callers pass an int, so the \<^verbatim>\<open>None\<close> test on the
  identifier never fires.  The result is \<^verbatim>\<open>None\<close> or a string.
\<close>

definition lookup :: "('m, 'r) symbology \<Rightarrow> ('m, 'z) resolver_scheme \<Rightarrow> int \<Rightarrow> int \<Rightarrow> pyval" where
  "lookup sy rs instrument_id date =
     (case map_resolve sy (imap rs) instrument_id date of
        None \<Rightarrow> PyNone
      | Some s \<Rightarrow> PyStr s)"

definition pending_count :: "('m, 'z) resolver_scheme \<Rightarrow> nat" where
  "pending_count rs = length (pending rs)"

section \<open>Replay pipeline\<close>

text \<open>
  The state closed over by \<^verbatim>\<open>flush_buffer\<close> and \<^verbatim>\<open>handle_record\<close> in \<^verbatim>\<open>main\<close>: the
  resolver, the list \<^verbatim>\<open>buffered\<close> of (record, instrument_id, date), and the lines
  printed so far.
\<close>

type_synonym entry = "raw_record \<times> int \<times> int"

record 'm replay = "'m resolver" +
  buffered :: "entry list"
  out :: "payload list"

text \<open>\<^verbatim>\<open>emit_payload\<close> (lines 166-169).\<close>

definition emit_payload :: "payload option \<Rightarrow> 'm replay \<Rightarrow> 'm replay outcome" where
  "emit_payload payload st =
     (case payload of
        None \<Rightarrow> (st, None)
      | Some p \<Rightarrow>
          (if \<forall>v \<in> set (map snd p). json_ok v then (st\<lparr>out := out st @ [p]\<rparr>, None)
           else (st, Some TypeError)))"

text \<open>\<^verbatim>\<open>emit_payload(build_payload(record, symbol))\<close>.\<close>

definition emit_built :: "runtime \<Rightarrow> raw_record \<Rightarrow> pyval \<Rightarrow> 'm replay \<Rightarrow> 'm replay outcome" where
  "emit_built rt record symbol_override st =
     (case build_payload rt record symbol_override of
        Inl e \<Rightarrow> (st, Some e)
      | Inr payload \<Rightarrow> emit_payload payload st)"

text \<open>The \<^verbatim>\<open>for\<close> loop of \<^verbatim>\<open>flush_buffer\<close> (lines 216-224), with \<^verbatim>\<open>remaining\<close>.\<close>

fun flush_scan ::
  "('m, 'r) symbology \<Rightarrow> runtime \<Rightarrow> bool \<Rightarrow> entry list \<Rightarrow> entry list \<Rightarrow> 'm replay
     \<Rightarrow> (entry list \<times> 'm replay) outcome" where
  "flush_scan sy rt force [] remaining st = ((remaining, st), None)"
| "flush_scan sy rt force ((record, instrument_id, date) # rest) remaining st =
     (let mapped = lookup sy st instrument_id date
      in if truthy mapped
         then (case emit_built rt record mapped st of
                 (st1, Some e) \<Rightarrow> ((remaining, st1), Some e)
               | (st1, None) \<Rightarrow> flush_scan sy rt force rest remaining st1)
         else if force
         then (case emit_built rt record (PyStr (str_int instrument_id)) st of
                 (st1, Some e) \<Rightarrow> ((remaining, st1), Some e)
               | (st1, None) \<Rightarrow> flush_scan sy rt force rest remaining st1)
         else flush_scan sy rt force rest (remaining @ [(record, instrument_id, date)]) st)"

text \<open>
  \<^verbatim>\<open>flush_buffer\<close> (lines 211-225).  \<^verbatim>\<open>buffered[:] = remaining\<close> is the last
  statement, so a raise inside the loop leaves \<^verbatim>\<open>buffered\<close> as it was.
\<close>

definition flush_buffer ::
  "('m, 'r) symbology \<Rightarrow> runtime \<Rightarrow> bool \<Rightarrow> 'm replay \<Rightarrow> 'm replay outcome" where
  "flush_buffer sy rt force st =
     (if buffered st = [] then (st, None)
      else and_then (resolve_pending sy st)
             (\<lambda>st1. case flush_scan sy rt force (buffered st1) [] st1 of
                      ((remaining, st2), Some e) \<Rightarrow> (st2, Some e)
                    | ((remaining, st2), None) \<Rightarrow> (st2\<lparr>buffered := remaining\<rparr>, None)))"

text \<open>\<^verbatim>\<open>handle_record\<close> (lines 227-255).\<close>

definition handle_record ::
  "('m, 'r) symbology \<Rightarrow> runtime \<Rightarrow> raw_record \<Rightarrow> 'm replay \<Rightarrow> 'm replay outcome" where
  "handle_record sy rt record st =
     (let symbol = py_or (py_or (r_symbol record) (r_raw_symbol record))
                     (r_instrument_id record);
          ts_event = r_ts_event record
      in case normalize_ts rt ts_event of
           Inl e \<Rightarrow> (st, Some e)
         | Inr None \<Rightarrow> (st, None)
         | Inr (Some ts_ms) \<Rightarrow>
             (case utc_date ts_ms of
                Inl e \<Rightarrow> (st, Some e)
              | Inr date \<Rightarrow>
                  if is_numeric_symbol symbol
                  then (case py_int rt symbol of
                          Inl e \<Rightarrow> (st, Some e)
                        | Inr instrument_id \<Rightarrow>
                            (let mapped = lookup sy st instrument_id date
                             in if truthy mapped then emit_built rt record mapped st
                                else (let st1 = queue instrument_id st;
                                          st2 = st1\<lparr>buffered := buffered st1 @
                                                  [(record, instrument_id, date)]\<rparr>
                                      in if pending_count st2 \<ge> 200
                                         then flush_buffer sy rt False st2
                                         else (st2, None))))
                  else emit_built rt record PyNone st))"

text \<open>
  The two ways \<^verbatim>\<open>main\<close> consumes its input (lines 257-271).  \<^verbatim>\<open>data.replay\<close> calls
  the callback once per record, in order, and lets its exceptions through.
\<close>

fun replay_calls ::
  "('m, 'r) symbology \<Rightarrow> runtime \<Rightarrow> raw_record list \<Rightarrow> 'm replay \<Rightarrow> 'm replay outcome" where
  "replay_calls sy rt [] st = (st, None)"
| "replay_calls sy rt (record # rest) st =
     and_then (handle_record sy rt record st) (replay_calls sy rt rest)"

fun iterate_records ::
  "('m, 'r) symbology \<Rightarrow> runtime \<Rightarrow> raw_record list \<Rightarrow> 'm replay \<Rightarrow> 'm replay outcome" where
  "iterate_records sy rt [] st = (st, None)"
| "iterate_records sy rt (record # rest) st =
     and_then (handle_record sy rt record st)
       (\<lambda>st1. and_then (if length (buffered st1) \<ge> 2000
                         then flush_buffer sy rt False st1 else (st1, None))
                 (iterate_records sy rt rest))"

text \<open>
  The input \<^verbatim>\<open>data\<close>: an object with a \<^verbatim>\<open>replay\<close> method (which takes the callback
  by keyword or, failing that with TypeError, by position), an iterable, or neither.
\<close>

datatype source =
    Replayable bool "raw_record list"
  | Iterable "raw_record list"
  | Unsupported

datatype exit = Returned nat | Raised error

definition finish :: "'m replay outcome \<Rightarrow> 'm replay \<times> exit" where
  "finish r = (case r of (st, None) \<Rightarrow> (st, Returned 0) | (st, Some e) \<Rightarrow> (st, Raised e))"

fun consume ::
  "('m, 'r) symbology \<Rightarrow> runtime \<Rightarrow> source \<Rightarrow> 'm replay \<Rightarrow> 'm replay \<times> exit" where
  "consume sy rt (Replayable by_keyword records) st =
     finish
       (and_then
          (case (if by_keyword then replay_calls sy rt records st else (st, Some TypeError)) of
             (st1, Some TypeError) \<Rightarrow> replay_calls sy rt records st1
           | r \<Rightarrow> r)
          (flush_buffer sy rt True))"
| "consume sy rt (Iterable records) st =
     finish (and_then (iterate_records sy rt records st) (flush_buffer sy rt True))"
| "consume sy rt Unsupported st = (st, Returned 1)"

text \<open>The state \<^verbatim>\<open>main\<close> starts from, around a fresh \<^verbatim>\<open>InstrumentMap()\<close>.\<close>

definition initial :: "'m \<Rightarrow> 'm replay" where
  "initial m0 = \<lparr>imap = m0, pending = [], pending_set = {}, requests = [],
                 buffered = [], out = []\<rparr>"

section \<open>Live pipeline\<close>

text \<open>
  The ticker object handed to \<^verbatim>\<open>on_update\<close> (ibkr_stream.py, lines 63-94).  The handler
  reads \<^verbatim>\<open>time\<close> (\<^verbatim>\<open>None\<close> or a date-time), \<^verbatim>\<open>last\<close>, \<^verbatim>\<open>lastSize\<close> and
  \<^verbatim>\<open>exchange\<close> directly and asks \<^verbatim>\<open>hasattr\<close> only for \<^verbatim>\<open>lastExchange\<close>, which is
  \<open>None\<close> here when the attribute is absent.
\<close>

record ticker =
  tk_time :: "pydatetime option"
  tk_last :: pyval
  tk_lastSize :: pyval
  tk_lastExchange :: "pyval option"
  tk_exchange :: pyval

text \<open>Python's \<^verbatim>\<open>==\<close> on the modelled values: numbers compare by value across int and float.\<close>

fun py_eq :: "pyval \<Rightarrow> pyval \<Rightarrow> bool" where
  "py_eq PyNone PyNone = True"
| "py_eq (PyInt a) (PyInt b) = (a = b)"
| "py_eq (PyInt a) (PyFloat q) = (of_int a = q)"
| "py_eq (PyFloat q) (PyInt a) = (q = of_int a)"
| "py_eq (PyFloat p) (PyFloat q) = (p = q)"
| "py_eq (PyStr s) (PyStr t) = (s = t)"
| "py_eq (PyBytes s) (PyBytes t) = (s = t)"
| "py_eq (PyDate d) (PyDate e) = (d = e)"
| "py_eq (PyDateTime d) (PyDateTime e) =
     (case (dt_utcoffset d, dt_utcoffset e) of
        (None, None) \<Rightarrow> dt_day d = dt_day e \<and> dt_usec d = dt_usec e
      | (Some x, Some y) \<Rightarrow>
          dt_day d * 86400000000 + dt_usec d - x = dt_day e * 86400000000 + dt_usec e - y
      | _ \<Rightarrow> False)"
| "py_eq (PyList xs) (PyList ys) = list_all2 py_eq xs ys"
| "py_eq v w = False"

text \<open>The state of the closure: \<^verbatim>\<open>last_key\<close> and the lines printed so far.\<close>

type_synonym dedup_key = "int \<times> pyval \<times> pyval"

record live =
  last_key :: "dedup_key option"
  printed :: "payload list"

text \<open>\<^verbatim>\<open>key == last_key\<close>: a tuple never equals \<^verbatim>\<open>None\<close>; tuples compare by component.\<close>

fun key_eq :: "dedup_key \<Rightarrow> dedup_key option \<Rightarrow> bool" where
  "key_eq key None = False"
| "key_eq (ts, px, sz) (Some (ts', px', sz')) =
     (ts = ts' \<and> py_eq px px' \<and> py_eq sz sz')"

text \<open>
  Lines 68-74: the tick's time in milliseconds; \<open>now_ms\<close> is what
  \<^verbatim>\<open>int(time.time() * 1000)\<close> reads from the clock during this call.
\<close>

definition tick_ts_ms :: "runtime \<Rightarrow> int \<Rightarrow> ticker \<Rightarrow> error + int" where
  "tick_ts_ms rt now_ms updated_ticker =
     (case tk_time updated_ticker of
        None \<Rightarrow> Inr now_ms
      | Some ts \<Rightarrow>
          timestamp_ms rt (if dt_utcoffset ts = None then ts\<lparr>dt_utcoffset := Some 0\<rparr> else ts))"

text \<open>Lines 81-85.\<close>

definition tick_exchange :: "ticker \<Rightarrow> pyval" where
  "tick_exchange updated_ticker =
     (let exchange = (case tk_lastExchange updated_ticker of None \<Rightarrow> PyNone | Some v \<Rightarrow> v)
      in if \<not> truthy exchange then py_or (tk_exchange updated_ticker) (PyStr ''IBKR'')
         else exchange)"

text \<open>\<^verbatim>\<open>on_update\<close> (lines 63-94).\<close>

definition on_update :: "runtime \<Rightarrow> int \<Rightarrow> ticker \<Rightarrow> live \<Rightarrow> live outcome" where
  "on_update rt now_ms updated_ticker st =
     (if tk_last updated_ticker = PyNone \<or> tk_lastSize updated_ticker = PyNone
      then (st, None)
      else case tick_ts_ms rt now_ms updated_ticker of
        Inl e \<Rightarrow> (st, Some e)
      | Inr ts_ms \<Rightarrow>
          (let key = (ts_ms, tk_last updated_ticker, tk_lastSize updated_ticker)
           in if key_eq key (last_key st) then (st, None)
              else (let st1 = st\<lparr>last_key := Some key\<rparr>;
                        exchange = tick_exchange updated_ticker
                    in case py_float rt (tk_last updated_ticker) of
                         Inl e \<Rightarrow> (st1, Some e)
                       | Inr p \<Rightarrow>
                           (case py_int rt (tk_lastSize updated_ticker) of
                              Inl e \<Rightarrow> (st1, Some e)
                            | Inr n \<Rightarrow>
                                (let payload = [(''ts'', PyInt ts_ms), (''price'', PyFloat p),
                                                (''size'', PyInt n), (''exchange'', exchange)]
                                 in if \<forall>v \<in> set (map snd payload). json_ok v
                                    then (st1\<lparr>printed := printed st1 @ [payload]\<rparr>, None)
                                    else (st1, Some TypeError))))))"

text \<open>
  Successive calls of the handler, each with its clock reading.  A raise ends the modelled
  run: what the event loop does with it is the library's matter.
\<close>

fun on_updates :: "runtime \<Rightarrow> (int \<times> ticker) list \<Rightarrow> live \<Rightarrow> live outcome" where
  "on_updates rt [] st = (st, None)"
| "on_updates rt ((now_ms, t) # rest) st =
     and_then (on_update rt now_ms t st) (on_updates rt rest)"

section \<open>Reachable resolver states\<close>

text \<open>
  The states a \<^verbatim>\<open>SymbolResolver\<close> can be in: as constructed (both containers empty), and
  after any sequence of \<^verbatim>\<open>queue\<close> and \<^verbatim>\<open>resolve_pending\<close> calls, whether the latter
  return or raise.
\<close>

inductive resolver_reachable ::
  "('m, 'r) symbology \<Rightarrow> ('m, 'z) resolver_scheme \<Rightarrow> bool" for sy where
  fresh: "pending rs = [] \<Longrightarrow> pending_set rs = {} \<Longrightarrow> resolver_reachable sy rs"
| queued: "resolver_reachable sy rs \<Longrightarrow> resolver_reachable sy (queue x rs)"
| resolved: "resolver_reachable sy rs \<Longrightarrow> resolver_reachable sy (fst (resolve_pending sy rs))"

definition queue_inv :: "('m, 'z) resolver_scheme \<Rightarrow> bool" where
  "queue_inv rs = (distinct (pending rs) \<and> set (pending rs) = pending_set rs)"

section \<open>Concrete collaborators and inputs\<close>

text \<open>
  A host whose local timezone is UTC+01:00, a lookup service that knows one instrument,
  an instrument map kept as an association list, a trade record carrying a nanosecond
  timestamp and the given instrument identifier, and a tick without a time of its own.
\<close>

definition cet_runtime :: runtime where
  "cet_runtime =
     \<lparr>local_utcoffset = (\<lambda>_. 3600), str_other = (\<lambda>_. ''object''),
      decode_utf8_ignore = (\<lambda>b. b), parse_float = (\<lambda>_. None), parse_int = (\<lambda>_. None)\<rparr>"

definition directory :: "(int \<times> string) list" where
  "directory = [(7, ''SPY   240119C00450000'')]"

definition static_symbology :: "((int \<times> string) list, (int \<times> string) list) symbology" where
  "static_symbology =
     \<lparr>symbology_resolve = (\<lambda>log chunk. Some (filter (\<lambda>(i, s). i \<in> set chunk) directory)),
      insert_json = (\<lambda>response m. response @ m),
      map_resolve = (\<lambda>m i date. map_of m i)\<rparr>"

definition trade :: "pyval \<Rightarrow> raw_record" where
  "trade instrument =
     \<lparr>r_ts_event = PyInt 1700000000000000000, r_price = PyFloat (21 / 2), r_size = PyInt 5,
      r_symbol = PyNone, r_raw_symbol = PyNone, r_instrument_id = instrument,
      r_exchange = PyNone, r_publisher_id = PyNone, r_exchange_id = PyNone,
      r_conditions = PyNone, r_condition = PyNone\<rparr>"

definition tick :: ticker where
  "tick = \<lparr>tk_time = None, tk_last = PyFloat (21 / 2), tk_lastSize = PyInt 5,
            tk_lastExchange = Some (PyStr []), tk_exchange = PyStr ''SMART''\<rparr>"

text \<open>The live closure starts with \<^verbatim>\<open>last_key = None\<close> (line 61).\<close>

definition live_initial :: live where
  "live_initial = \<lparr>last_key = None, printed = []\<rparr>"

section \<open>The output contract\<close>

text \<open>
  The fields the canonical payload requires, and the fields the live handler writes.
\<close>

definition canonical :: "payload \<Rightarrow> bool" where
  "canonical p =
     (has_field p ''ts'' \<and> has_field p ''price'' \<and> has_field p ''size'' \<and>
      has_field p ''symbol'')"

definition live_fields :: "payload \<Rightarrow> bool" where
  "live_fields p =
     (has_field p ''ts'' \<and> has_field p ''price'' \<and> has_field p ''size'' \<and>
      has_field p ''exchange'' \<and> map_of p ''symbol'' = None)"

section \<open>Bookkeeping for the replay proofs\<close>

text \<open>
  \<open>forced_ok\<close>: the forced flush has dealt with an entry, either by printing the payload
  built with the stringified identifier or because the builder returned \<^verbatim>\<open>None\<close>.
  \<open>emits\<close>: the second state has printed what the first had, followed by canonical
  payloads only.
\<close>

definition forced_ok :: "runtime \<Rightarrow> payload list \<Rightarrow> raw_record \<Rightarrow> int \<Rightarrow> bool" where
  "forced_ok rt new r iid =
     (case build_payload rt r (PyStr (str_int iid)) of
        Inl e \<Rightarrow> False | Inr None \<Rightarrow> True | Inr (Some p) \<Rightarrow> p \<in> set new)"

definition emits :: "'m replay \<Rightarrow> 'm replay \<Rightarrow> bool" where
  "emits st st' = (\<exists>new. out st' = out st @ new \<and> list_all canonical new)"

section \<open>Properties\<close>

subsection \<open>The resolver's queue\<close>

lemma queue_inv_queue: "queue_inv rs \<Longrightarrow> queue_inv (queue x rs)"
  by (auto simp: queue_inv_def queue_def)

lemma resolve_chunks_done:
  "\<not> i < length pend \<Longrightarrow> resolve_chunks sy pend i rs = (rs, None)"
  by (subst resolve_chunks.simps) simp

lemma resolve_chunks_fail:
  "i < length pend \<Longrightarrow> symbology_resolve sy (requests rs) (take 2000 (drop i pend)) = None \<Longrightarrow>
   resolve_chunks sy pend i rs = (rs\<lparr>requests := requests rs @ [take 2000 (drop i pend)]\<rparr>, Some LookupFailed)"
  by (subst resolve_chunks.simps) (simp add: Let_def)

lemma resolve_chunks_step:
  "i < length pend \<Longrightarrow>
   symbology_resolve sy (requests rs) (take 2000 (drop i pend)) = Some response \<Longrightarrow>
   resolve_chunks sy pend i rs =
     resolve_chunks sy pend (i + 2000)
       (rs\<lparr>requests := requests rs @ [take 2000 (drop i pend)],
           imap := insert_json sy response (imap rs)\<rparr>)"
  by (subst resolve_chunks.simps) (simp add: Let_def)

lemma resolve_chunks_pending:
  "pending (fst (resolve_chunks sy pend i rs)) = pending rs \<and>
   pending_set (fst (resolve_chunks sy pend i rs)) = pending_set rs"
proof (induction sy pend i rs rule: resolve_chunks.induct)
  case (1 sy pend i rs)
  show ?case
  proof (cases "i < length pend")
    case False
    then show ?thesis by (simp add: resolve_chunks_done)
  next
    case True
    show ?thesis
    proof (cases "symbology_resolve sy (requests rs) (take 2000 (drop i pend))")
      case None
      with True show ?thesis by (simp add: resolve_chunks_fail)
    next
      case (Some response)
      with "1.IH" [OF True refl refl Some] show ?thesis
        by (simp add: resolve_chunks_step [OF True Some])
    qed
  qed
qed

lemma resolve_pending_clears:
  "set (pending rs) = pending_set rs \<Longrightarrow>
   pending (fst (resolve_pending sy rs)) = [] \<and> pending_set (fst (resolve_pending sy rs)) = {}"
  by (auto simp: resolve_pending_def resolve_chunks_pending)

lemma queue_inv_resolve: "queue_inv rs \<Longrightarrow> queue_inv (fst (resolve_pending sy rs))"
  using resolve_pending_clears [of rs sy] by (simp add: queue_inv_def)

lemma reachable_queue_inv: "resolver_reachable sy rs \<Longrightarrow> queue_inv rs"
proof (induction rule: resolver_reachable.induct)
  case (fresh rs)
  then show ?case by (simp add: queue_inv_def)
next
  case (queued rs x)
  from queued.IH show ?case by (rule queue_inv_queue)
next
  case (resolved rs)
  from resolved.IH show ?case by (rule queue_inv_resolve)
qed

text \<open>
  C6.  In every state a resolver can reach, no identifier occurs twice in the pending list;
  \<^verbatim>\<open>queue\<close> of an identifier that is already pending changes nothing; queueing the same
  identifier a second time leaves the count where the first call put it; and on a fresh
  resolver two calls with the same identifier give a count of 1.
\<close>

theorem queue_dedup:
  assumes "resolver_reachable sy rs"
  shows "distinct (pending rs) \<and>
         (x \<in> set (pending rs) \<longrightarrow> queue x rs = rs) \<and>
         pending_count (queue x (queue x rs)) = pending_count (queue x rs) \<and>
         pending_count (queue x (queue x (initial m0))) = 1"
proof -
  have inv: "queue_inv rs" using assms by (rule reachable_queue_inv)
  then show ?thesis by (auto simp: queue_inv_def queue_def pending_count_def initial_def)
qed

theorem queue_dedup_witness:
  "resolver_reachable static_symbology (queue 7 (initial [])) \<and>
   distinct (pending (queue 7 (initial ([] :: (int \<times> string) list)))) \<and>
   7 \<in> set (pending (queue 7 (initial ([] :: (int \<times> string) list)))) \<and>
   queue 7 (queue 7 (initial [])) = queue 7 (initial ([] :: (int \<times> string) list)) \<and>
   pending_count (queue 7 (queue 7 (initial ([] :: (int \<times> string) list)))) = 1"
proof -
  have r: "resolver_reachable static_symbology (queue 7 (initial []))"
    by (intro resolver_reachable.queued resolver_reachable.fresh) (simp_all add: initial_def)
  have m: "7 \<in> set (pending (queue 7 (initial ([] :: (int \<times> string) list))))"
    by (simp add: queue_def initial_def)
  note t = queue_dedup [OF r, of 7 "[]"]
  show ?thesis
    by (intro conjI r m t [THEN conjunct1] t [THEN conjunct2, THEN conjunct1, THEN mp, OF m]
          t [THEN conjunct2, THEN conjunct2, THEN conjunct2])
qed

subsection \<open>Batched resolution\<close>

lemma resolve_chunks_requests:
  "\<exists>new. requests (fst (resolve_chunks sy pend i rs)) = requests rs @ new \<and>
         (\<forall>c \<in> set new. length c \<le> 2000 \<and> c \<noteq> []) \<and>
         (snd (resolve_chunks sy pend i rs) = None \<longrightarrow> concat new = drop i pend)"
proof (induction sy pend i rs rule: resolve_chunks.induct)
  case (1 sy pend i rs)
  show ?case
  proof (cases "i < length pend")
    case False
    then show ?thesis by (simp add: resolve_chunks_done)
  next
    case True
    let ?chunk = "take 2000 (drop i pend)"
    have ne: "?chunk \<noteq> []" using True by simp
    show ?thesis
    proof (cases "symbology_resolve sy (requests rs) ?chunk")
      case None
      have len0: "length ?chunk \<le> 2000" by simp
      have a: "requests (fst (resolve_chunks sy pend i rs)) = requests rs @ [?chunk]"
        by (simp add: resolve_chunks_fail [OF True None])
      have "snd (resolve_chunks sy pend i rs) \<noteq> None"
        by (simp add: resolve_chunks_fail [OF True None])
      then have c: "snd (resolve_chunks sy pend i rs) = None \<longrightarrow> concat [?chunk] = drop i pend"
        by (rule contrapos_np [THEN impI]) assumption
      have b: "\<forall>c \<in> set [?chunk]. length c \<le> 2000 \<and> c \<noteq> []"
        using ne len0 by (simp del: length_take take_eq_Nil)
      show ?thesis by (rule exI [of _ "[?chunk]"]) (rule conjI [OF a conjI [OF b c]])
    next
      case (Some response)
      let ?rs2 = "rs\<lparr>requests := requests rs @ [?chunk],
                      imap := insert_json sy response (imap rs)\<rparr>"
      from "1.IH" [OF True refl refl Some]
      obtain new where new:
        "requests (fst (resolve_chunks sy pend (i + 2000) ?rs2)) = requests ?rs2 @ new"
        "\<forall>c \<in> set new. length c \<le> 2000 \<and> c \<noteq> []"
        "snd (resolve_chunks sy pend (i + 2000) ?rs2) = None \<longrightarrow> concat new = drop (i + 2000) pend"
        by auto
      have step: "resolve_chunks sy pend i rs = resolve_chunks sy pend (i + 2000) ?rs2"
        by (rule resolve_chunks_step [OF True Some])
      have "drop (i + 2000) pend = drop 2000 (drop i pend)"
        by (simp add: add.commute)
      then have split: "?chunk @ drop (i + 2000) pend = drop i pend"
        by (simp only: append_take_drop_id)
      have len: "length ?chunk \<le> 2000" by simp
      have a: "requests (fst (resolve_chunks sy pend i rs)) = requests rs @ (?chunk # new)"
        using new(1) by (simp add: step)
      have b: "\<forall>c \<in> set (?chunk # new). length c \<le> 2000 \<and> c \<noteq> []"
        using new(2) ne len by (simp del: length_take take_eq_Nil)
      have c: "snd (resolve_chunks sy pend i rs) = None \<longrightarrow>
                     concat (?chunk # new) = drop i pend"
        using new(3) split by (simp add: step del: length_take take_eq_Nil)
      show ?thesis by (rule exI [of _ "?chunk # new"]) (rule conjI [OF a conjI [OF b c]])
    qed
  qed
qed

text \<open>
  C3.  From every reachable state, \<^verbatim>\<open>resolve_pending\<close> sends the pending identifiers to
  the remote lookup in chunks of at most 2000; when it returns, the chunks together are
  exactly the identifiers that were pending, in order; and the pending list and the
  membership set are both empty afterwards (also when a lookup raised, since they are
  cleared before the first request).
\<close>

theorem resolve_pending_chunks:
  assumes "resolver_reachable sy rs"
  shows "\<exists>new. requests (fst (resolve_pending sy rs)) = requests rs @ new \<and>
           (\<forall>c \<in> set new. length c \<le> 2000) \<and>
           (snd (resolve_pending sy rs) = None \<longrightarrow> concat new = pending rs) \<and>
           pending (fst (resolve_pending sy rs)) = [] \<and>
           pending_set (fst (resolve_pending sy rs)) = {}"
proof -
  have inv: "set (pending rs) = pending_set rs"
    using reachable_queue_inv [OF assms] by (simp add: queue_inv_def)
  note clear = resolve_pending_clears [OF inv, of sy]
  show ?thesis
  proof (cases "pending rs = []")
    case True
    then have "requests (fst (resolve_pending sy rs)) = requests rs @ [] \<and>
           (\<forall>c \<in> set []. length c \<le> 2000) \<and>
           (snd (resolve_pending sy rs) = None \<longrightarrow> concat [] = pending rs) \<and>
           pending (fst (resolve_pending sy rs)) = [] \<and>
           pending_set (fst (resolve_pending sy rs)) = {}"
      using clear by (simp add: resolve_pending_def)
    then show ?thesis by (rule exI)
  next
    case False
    let ?rs1 = "rs\<lparr>pending := [], pending_set := {}\<rparr>"
    from resolve_chunks_requests [of sy "pending rs" 0 ?rs1]
    obtain new where
      "requests (fst (resolve_chunks sy (pending rs) 0 ?rs1)) = requests ?rs1 @ new"
      "\<forall>c \<in> set new. length c \<le> 2000 \<and> c \<noteq> []"
      "snd (resolve_chunks sy (pending rs) 0 ?rs1) = None \<longrightarrow> concat new = drop 0 (pending rs)"
      by (elim exE conjE) (rule that)
    then have "requests (fst (resolve_pending sy rs)) = requests rs @ new \<and>
           (\<forall>c \<in> set new. length c \<le> 2000) \<and>
           (snd (resolve_pending sy rs) = None \<longrightarrow> concat new = pending rs)"
      using False by (simp add: resolve_pending_def)
    with clear have "requests (fst (resolve_pending sy rs)) = requests rs @ new \<and>
           (\<forall>c \<in> set new. length c \<le> 2000) \<and>
           (snd (resolve_pending sy rs) = None \<longrightarrow> concat new = pending rs) \<and>
           pending (fst (resolve_pending sy rs)) = [] \<and>
           pending_set (fst (resolve_pending sy rs)) = {}"
      by (elim conjE) (intro conjI, assumption+)
    then show ?thesis by (rule exI)
  qed
qed


theorem resolve_pending_chunks_witness:
  "resolver_reachable static_symbology (queue 9 (queue 7 (initial []))) \<and>
   requests (fst (resolve_pending static_symbology (queue 9 (queue 7 (initial []))))) = [[7, 9]] \<and>
   (\<exists>new. requests (fst (resolve_pending static_symbology (queue 9 (queue 7 (initial [])))))
            = requests (queue 9 (queue 7 (initial ([] :: (int \<times> string) list)))) @ new \<and>
          (\<forall>c \<in> set new. length c \<le> 2000) \<and>
          (snd (resolve_pending static_symbology (queue 9 (queue 7 (initial [])))) = None
             \<longrightarrow> concat new = pending (queue 9 (queue 7 (initial ([] :: (int \<times> string) list))))) \<and>
          pending (fst (resolve_pending static_symbology (queue 9 (queue 7 (initial []))))) = [] \<and>
          pending_set (fst (resolve_pending static_symbology (queue 9 (queue 7 (initial []))))) = {})"
proof -
  have r: "resolver_reachable static_symbology (queue 9 (queue 7 (initial [])))"
    by (intro resolver_reachable.queued resolver_reachable.fresh) (simp_all add: initial_def)
  have e: "requests (fst (resolve_pending static_symbology (queue 9 (queue 7 (initial []))))) = [[7, 9]]"
    by (simp add: resolve_pending_def queue_def initial_def static_symbology_def
          resolve_chunks_step resolve_chunks_done)
  show ?thesis by (rule conjI [OF r conjI [OF e resolve_pending_chunks [OF r]]])
qed

subsection \<open>Rounding to binary64\<close>

lemma round_half_even_cases:
  "round_half_even y = \<lfloor>y\<rfloor> \<or> round_half_even y = \<lfloor>y\<rfloor> + 1"
  by (simp add: round_half_even_def Let_def)

lemma round_half_even_of_int: "round_half_even (of_int k) = k"
  by (simp add: round_half_even_def Let_def)

lemma pow2_nonpos: "s \<le> 0 \<Longrightarrow> pow2 s = 1 / 2 ^ nat (- s)"
  by (cases "s = 0") (simp_all add: pow2_def)

lemma ilog2_small:
  assumes "1 \<le> x" "x < 2 ^ 53"
  shows "ilog2 x - 52 \<le> 0"
proof -
  have "\<lfloor>x\<rfloor> < 2 ^ 53" using assms(2) by (simp add: floor_less_iff)
  then have "bitlen \<lfloor>x\<rfloor> \<le> 53" by (simp add: bitlen_le_iff_power)
  then show ?thesis using assms(1) by (simp add: ilog2_def)
qed

text \<open>The shape of a rounded value in \<open>[1, 2 ^ 53)\<close>.\<close>

lemma round_double_small:
  assumes "1 \<le> x" "x < 2 ^ 53"
  shows "\<exists>t. round_double x = of_int (round_half_even (x * 2 ^ t)) / 2 ^ t"
proof -
  let ?s = "ilog2 x - 52"
  have s: "?s \<le> 0" using assms by (rule ilog2_small)
  have pos: "0 < x" using assms(1) by simp
  have "round_double x = of_int (round_half_even (x * 2 ^ nat (- ?s))) / 2 ^ nat (- ?s)"
    using pos by (simp add: round_double_def Let_def pow2_nonpos [OF s])
  then show ?thesis ..
qed

lemma scaled_floor_bounds:
  fixes x :: rat
  assumes "m = \<lfloor>x * 2 ^ t\<rfloor> \<or> m = \<lfloor>x * 2 ^ t\<rfloor> + 1"
  shows "of_int \<lfloor>x\<rfloor> \<le> (of_int m :: rat) / 2 ^ t" and "(of_int m :: rat) / 2 ^ t \<le> x + 1"
proof -
  have p: "(0::rat) < 2 ^ t" by simp
  have "of_int (\<lfloor>x\<rfloor> * 2 ^ t) \<le> x * 2 ^ t"
    by (simp add: mult_right_mono)
  then have "\<lfloor>x\<rfloor> * 2 ^ t \<le> \<lfloor>x * 2 ^ t\<rfloor>" by (simp only: le_floor_iff)
  then have "\<lfloor>x\<rfloor> * 2 ^ t \<le> m" using assms by auto
  then have "(of_int (\<lfloor>x\<rfloor> * 2 ^ t) :: rat) \<le> of_int m" by (simp only: of_int_le_iff)
  then show "of_int \<lfloor>x\<rfloor> \<le> (of_int m :: rat) / 2 ^ t"
    using p by (simp add: pos_le_divide_eq)
  have "(of_int m :: rat) \<le> of_int \<lfloor>x * 2 ^ t\<rfloor> + 1" using assms by auto
  also have "\<dots> \<le> x * 2 ^ t + 1" by simp
  also have "\<dots> \<le> x * 2 ^ t + 2 ^ t" by simp
  finally have "(of_int m :: rat) \<le> (x + 1) * 2 ^ t" by (simp add: algebra_simps)
  then show "(of_int m :: rat) / 2 ^ t \<le> x + 1"
    using p by (simp add: pos_divide_le_eq)
qed

lemma round_double_trunc:
  assumes "1 \<le> x" "x < 2 ^ 53"
  shows "float_trunc (round_double x) = \<lfloor>x\<rfloor> \<or> float_trunc (round_double x) = \<lfloor>x\<rfloor> + 1"
    and "\<bar>round_double x\<bar> < 2 ^ 1024"
    and "x \<in> \<int> \<Longrightarrow> round_double x = x"
proof -
  obtain t where t: "round_double x = of_int (round_half_even (x * 2 ^ t)) / 2 ^ t"
    using round_double_small [OF assms] by blast
  let ?m = "round_half_even (x * 2 ^ t)"
  have m: "?m = \<lfloor>x * 2 ^ t\<rfloor> \<or> ?m = \<lfloor>x * 2 ^ t\<rfloor> + 1" by (rule round_half_even_cases)
  note lo = scaled_floor_bounds(1) [OF m] and hi = scaled_floor_bounds(2) [OF m]
  have x1: "1 \<le> \<lfloor>x\<rfloor>" using assms(1) by (simp add: le_floor_iff)
  have nonneg: "0 \<le> round_double x" using lo x1 unfolding t
    by (smt (verit) of_int_0_le_iff order_trans zero_le_one)
  have "\<lfloor>x\<rfloor> \<le> \<lfloor>round_double x\<rfloor>" using lo unfolding t by (simp add: le_floor_iff)
  moreover have "round_double x < of_int (\<lfloor>x\<rfloor> + 2)"
  proof -
    have "x < of_int \<lfloor>x\<rfloor> + 1" by linarith
    then show ?thesis using hi unfolding t by simp
  qed
  then have "\<lfloor>round_double x\<rfloor> < \<lfloor>x\<rfloor> + 2" by (simp only: floor_less_iff)
  ultimately show "float_trunc (round_double x) = \<lfloor>x\<rfloor> \<or> float_trunc (round_double x) = \<lfloor>x\<rfloor> + 1"
    using nonneg by (auto simp: float_trunc_def)
  have "round_double x \<le> x + 1" using hi unfolding t .
  also have "\<dots> < 2 ^ 53 + 1" using assms(2) by simp
  also have "\<dots> < (2::rat) ^ 1024" by simp
  finally show "\<bar>round_double x\<bar> < 2 ^ 1024" using nonneg by simp
  show "round_double x = x" if "x \<in> \<int>"
  proof -
    from that obtain k where k: "x = of_int k" by (auto elim: Ints_cases)
    have "x * 2 ^ t = of_int (k * 2 ^ t)" by (simp add: k)
    then have "?m = k * 2 ^ t" by (simp only: round_half_even_of_int)
    then show ?thesis unfolding t by (simp add: k)
  qed
qed


lemma int_truediv_in_range:
  assumes "1000000000000000 < v" "v < 9007199254740992000000"
  shows "int_truediv v 1000000 = Inr (round_double (of_int v / 1000000))"
proof -
  let ?x = "(of_int v :: rat) / of_int 1000000"
  have "(1000000 :: rat) \<le> of_int v" using assms(1) by linarith
  then have lo: "1 \<le> ?x" by simp
  have "(of_int v :: rat) < of_int 9007199254740992000000"
    using assms(2) by (simp only: of_int_less_iff)
  then have hi: "?x < 2 ^ 53" by simp
  show ?thesis
    using round_double_trunc(2) [OF lo hi] by (simp add: int_truediv_def to_double_def Let_def)
qed

lemma int_truediv_million:
  assumes "1000000000000000 < v" "v < 9007199254740992000000"
  shows "\<exists>r. int_truediv v 1000000 = Inr r \<and>
           (float_trunc r = v div 1000000 \<or> float_trunc r = v div 1000000 + 1) \<and>
           (1000000 dvd v \<longrightarrow> float_trunc r = v div 1000000)"
proof -
  let ?x = "(of_int v :: rat) / of_int 1000000"
  have "(1000000 :: rat) \<le> of_int v" using assms(1) by linarith
  then have lo: "1 \<le> ?x" by simp
  have "(of_int v :: rat) < of_int 9007199254740992000000" using assms(2) by (simp only: of_int_less_iff)
  then have hi: "?x < 2 ^ 53" by simp
  have fl: "\<lfloor>?x\<rfloor> = v div 1000000" by (rule floor_divide_of_int_eq)
  note t = round_double_trunc [OF lo hi]
  have ok: "int_truediv v 1000000 = Inr (round_double ?x)"
    using t(2) by (simp add: int_truediv_def to_double_def Let_def)
  have exact: "float_trunc (round_double ?x) = v div 1000000" if "1000000 dvd v"
  proof -
    from that obtain k where k: "v = 1000000 * k" by (auto elim: dvdE)
    have "?x = of_int k" by (simp add: k)
    then have "?x \<in> \<int>" by simp
    then have rd: "round_double ?x = ?x" by (rule t(3))
    have nn: "0 \<le> ?x" using lo by linarith
    have "float_trunc (round_double ?x) = \<lfloor>?x\<rfloor>"
      unfolding rd float_trunc_def using nn by (simp only: if_True)
    then show ?thesis by (simp only: fl)
  qed
  have c1: "float_trunc (round_double ?x) = v div 1000000 \<or>
            float_trunc (round_double ?x) = v div 1000000 + 1"
    using t(1) unfolding fl .
  have c2: "1000000 dvd v \<longrightarrow> float_trunc (round_double ?x) = v div 1000000"
    by (intro impI) (rule exact)
  show ?thesis by (rule exI [of _ "round_double ?x"]) (rule conjI [OF ok conjI [OF c1 c2]])
qed


subsection \<open>Numeric timestamps\<close>

text \<open>
  C2, as the code has it.  An int timestamp \<open>v\<close> of at most \<open>10 ^ 15\<close> is returned
  unchanged.  A larger one is taken as nanoseconds: the result is the integer part of the
  binary64 quotient \<open>v / 1_000_000\<close>, which for \<open>v\<close> below \<open>2 ^ 53 * 10 ^ 6\<close> is the
  exact integer quotient or that quotient plus one, and is the exact quotient whenever
  \<open>10 ^ 6\<close> divides \<open>v\<close>.  A float timestamp of at most \<open>10 ^ 15\<close> is truncated toward
  zero; a larger one is divided and truncated in the same way.
\<close>

theorem normalize_ts_numeric:
  "(v \<le> 1000000000000000 \<longrightarrow> normalize_ts rt (PyInt v) = Inr (Some v)) \<and>
   (1000000000000000 < v \<and> v < 9007199254740992000000 \<longrightarrow>
      (\<exists>r. normalize_ts rt (PyInt v) = Inr (Some r) \<and>
           (r = v div 1000000 \<or> r = v div 1000000 + 1) \<and>
           (1000000 dvd v \<longrightarrow> r = v div 1000000))) \<and>
   (q \<le> 1000000000000000 \<longrightarrow> normalize_ts rt (PyFloat q) = Inr (Some (float_trunc q))) \<and>
   (1000000000000000 < q \<and> q < 9007199254740992000000 \<longrightarrow>
      (\<exists>r. normalize_ts rt (PyFloat q) = Inr (Some r) \<and>
           (r = \<lfloor>q / 1000000\<rfloor> \<or> r = \<lfloor>q / 1000000\<rfloor> + 1)))"
proof (intro conjI impI)
  assume "v \<le> 1000000000000000"
  then show "normalize_ts rt (PyInt v) = Inr (Some v)" by simp
next
  assume a: "1000000000000000 < v \<and> v < 9007199254740992000000"
  then have a1: "1000000000000000 < v" and a2: "v < 9007199254740992000000" by simp_all
  from int_truediv_million [OF a1 a2]
  obtain r where r: "int_truediv v 1000000 = Inr r"
    "float_trunc r = v div 1000000 \<or> float_trunc r = v div 1000000 + 1"
    "1000000 dvd v \<longrightarrow> float_trunc r = v div 1000000"
    by (elim exE conjE) (rule that)
  have "normalize_ts rt (PyInt v) = Inr (Some (float_trunc r))" using a r(1) by simp
  with r(2,3) show "\<exists>r. normalize_ts rt (PyInt v) = Inr (Some r) \<and>
           (r = v div 1000000 \<or> r = v div 1000000 + 1) \<and>
           (1000000 dvd v \<longrightarrow> r = v div 1000000)" by simp
next
  assume "q \<le> 1000000000000000"
  then show "normalize_ts rt (PyFloat q) = Inr (Some (float_trunc q))" by simp
next
  assume a: "1000000000000000 < q \<and> q < 9007199254740992000000"
  then have lo: "1 \<le> q / 1000000" and hi: "q / 1000000 < 2 ^ 53" by simp_all
  have "normalize_ts rt (PyFloat q) = Inr (Some (float_trunc (round_double (q / 1000000))))"
    using a by simp
  with round_double_trunc(1) [OF lo hi]
  show "\<exists>r. normalize_ts rt (PyFloat q) = Inr (Some r) \<and>
           (r = \<lfloor>q / 1000000\<rfloor> \<or> r = \<lfloor>q / 1000000\<rfloor> + 1)" by simp
qed

theorem normalize_ts_numeric_witness:
  "normalize_ts cet_runtime (PyInt 1700000000000) = Inr (Some 1700000000000) \<and>
   normalize_ts cet_runtime (PyFloat (3 / 2)) = Inr (Some (float_trunc (3 / 2))) \<and>
   (\<exists>r. normalize_ts cet_runtime (PyInt 1700000000000000000) = Inr (Some r) \<and>
        (r = 1700000000000000000 div 1000000 \<or> r = 1700000000000000000 div 1000000 + 1) \<and>
        (1000000 dvd (1700000000000000000 :: int) \<longrightarrow> r = 1700000000000000000 div 1000000)) \<and>
   (\<exists>r. normalize_ts cet_runtime (PyFloat 1700000000000000000) = Inr (Some r) \<and>
        (r = \<lfloor>1700000000000000000 / 1000000 :: rat\<rfloor> \<or>
         r = \<lfloor>1700000000000000000 / 1000000 :: rat\<rfloor> + 1))"
proof -
  note small = normalize_ts_numeric [of 1700000000000 cet_runtime "3 / 2"]
  note large = normalize_ts_numeric [of 1700000000000000000 cet_runtime 1700000000000000000]
  have h1: "(1700000000000 :: int) \<le> 1000000000000000" by simp
  have h2: "1000000000000000 < (1700000000000000000 :: int) \<and>
            (1700000000000000000 :: int) < 9007199254740992000000" by simp
  have h3: "(3 / 2 :: rat) \<le> 1000000000000000" by simp
  have h4: "1000000000000000 < (1700000000000000000 :: rat) \<and>
            (1700000000000000000 :: rat) < 9007199254740992000000" by simp
  show ?thesis
    by (intro conjI small [THEN conjunct1, THEN mp, OF h1]
          small [THEN conjunct2, THEN conjunct2, THEN conjunct1, THEN mp, OF h3]
          large [THEN conjunct2, THEN conjunct1, THEN mp, OF h2]
          large [THEN conjunct2, THEN conjunct2, THEN conjunct2, THEN mp, OF h4])
qed


text \<open>
  The claim reads the nanosecond case as the integer quotient.  At the nanosecond
  timestamp \<open>1700000000999999999\<close> the float quotient rounds up to a whole number of
  milliseconds, one more than the integer quotient \<open>1700000000999\<close>.
\<close>

theorem normalize_ts_quotient_counterexample:
  "normalize_ts cet_runtime (PyInt 1700000000999999999) = Inr (Some 1700000001000) \<and>
   normalize_ts cet_runtime (PyInt 1700000000999999999)
     \<noteq> Inr (Some (1700000000999999999 div 1000000))"
proof -
  have q: "int_truediv 1700000000999999999 1000000
             = Inr (round_double (of_int 1700000000999999999 / 1000000))"
    by (rule int_truediv_in_range) simp_all
  have r: "float_trunc (round_double (of_int 1700000000999999999 / 1000000)) = 1700000001000"
    by code_simp
  have e: "normalize_ts cet_runtime (PyInt 1700000000999999999) = Inr (Some 1700000001000)"
  proof -
    have gt: "(1700000000999999999 :: int) > 1000000000000000" by simp
    show ?thesis by (simp only: normalize_ts.simps gt if_True q map_sum.simps r id_apply)
  qed
  show ?thesis unfolding e by simp
qed


subsection \<open>Dates and naive date-times\<close>

text \<open>
  C9.  On a host whose local timezone is UTC+01:00, \<^verbatim>\<open>normalize_ts\<close> maps the date
  2024-01-02 (day 19724) and the naive date-time 2024-01-02 00:00:00 to 1704150000000,
  which is 2024-01-01 23:00:00 UTC, not to midnight UTC 1704153600000: the naive value is
  read in local time.  The live handler, given the same naive date-time, attaches UTC
  first and yields 1704153600000.
\<close>

theorem normalize_ts_local_time:
  "normalize_ts cet_runtime (PyDate 19724) = Inr (Some 1704150000000) \<and>
   normalize_ts cet_runtime (PyDateTime \<lparr>dt_day = 19724, dt_usec = 0, dt_utcoffset = None\<rparr>)
     = Inr (Some 1704150000000) \<and>
   tick_ts_ms cet_runtime 0
     (tick\<lparr>tk_time := Some \<lparr>dt_day = 19724, dt_usec = 0, dt_utcoffset = None\<rparr>\<rparr>)
     = Inr 1704153600000 \<and>
   19724 * 86400000 = (1704153600000 :: int)"
proof -
  have a: "normalize_ts cet_runtime (PyDate 19724) = Inr (Some 1704150000000)"
    by code_simp
  have b: "normalize_ts cet_runtime
             (PyDateTime \<lparr>dt_day = 19724, dt_usec = 0, dt_utcoffset = None\<rparr>)
           = Inr (Some 1704150000000)"
    by code_simp
  have q: "int_truediv 1704153600000000 1000000
             = Inr (round_double (of_int 1704153600000000 / 1000000))"
    by (rule int_truediv_in_range) simp_all
  have r: "float_trunc (round_double (round_double 1704153600 * 1000)) = 1704153600000"
    by code_simp
  have t: "timestamp_ms cet_runtime \<lparr>dt_day = 19724, dt_usec = 0, dt_utcoffset = Some 0\<rparr>
             = Inr 1704153600000"
    unfolding timestamp_ms_def timestamp_def by (simp add: q r)
  have c: "tick_ts_ms cet_runtime 0
             (tick\<lparr>tk_time := Some \<lparr>dt_day = 19724, dt_usec = 0, dt_utcoffset = None\<rparr>\<rparr>)
           = Inr 1704153600000"
    unfolding tick_ts_ms_def by (simp add: t)
  have d: "19724 * 86400000 = (1704153600000 :: int)" by simp
  show ?thesis by (rule conjI [OF a conjI [OF b conjI [OF c d]]])
qed


subsection \<open>The live handler\<close>

lemma on_update_missing:
  "tk_last t = PyNone \<or> tk_lastSize t = PyNone \<Longrightarrow> on_update rt now t st = (st, None)"
  by (auto simp: on_update_def)

lemma on_update_duplicate:
  "tk_last t \<noteq> PyNone \<Longrightarrow> tk_lastSize t \<noteq> PyNone \<Longrightarrow> tick_ts_ms rt now t = Inr ts \<Longrightarrow>
   key_eq (ts, tk_last t, tk_lastSize t) (last_key st) \<Longrightarrow> on_update rt now t st = (st, None)"
  by (simp add: on_update_def)

lemma on_update_accept:
  assumes "tk_last t \<noteq> PyNone" "tk_lastSize t \<noteq> PyNone" "tick_ts_ms rt now t = Inr ts"
    "\<not> key_eq (ts, tk_last t, tk_lastSize t) (last_key st)"
  shows "on_update rt now t st =
    (case py_float rt (tk_last t) of
       Inl e \<Rightarrow> (st\<lparr>last_key := Some (ts, tk_last t, tk_lastSize t)\<rparr>, Some e)
     | Inr p \<Rightarrow>
        (case py_int rt (tk_lastSize t) of
           Inl e \<Rightarrow> (st\<lparr>last_key := Some (ts, tk_last t, tk_lastSize t)\<rparr>, Some e)
         | Inr n \<Rightarrow>
            if json_ok (tick_exchange t)
            then (st\<lparr>last_key := Some (ts, tk_last t, tk_lastSize t),
                     printed := printed st @ [[(''ts'', PyInt ts), (''price'', PyFloat p),
                        (''size'', PyInt n), (''exchange'', tick_exchange t)]]\<rparr>, None)
            else (st\<lparr>last_key := Some (ts, tk_last t, tk_lastSize t)\<rparr>, Some TypeError)))"
  using assms by (simp add: on_update_def Let_def split: sum.splits)

lemma on_update_accept_key:
  assumes "tk_last t \<noteq> PyNone" "tk_lastSize t \<noteq> PyNone" "tick_ts_ms rt now t = Inr ts"
    "\<not> key_eq (ts, tk_last t, tk_lastSize t) (last_key st)"
  shows "last_key (fst (on_update rt now t st)) = Some (ts, tk_last t, tk_lastSize t)"
  unfolding on_update_accept [OF assms] by (simp split: sum.splits)

lemma on_update_accept_emit:
  assumes "tk_last t \<noteq> PyNone" "tk_lastSize t \<noteq> PyNone" "tick_ts_ms rt now t = Inr ts"
    "\<not> key_eq (ts, tk_last t, tk_lastSize t) (last_key st)"
    "snd (on_update rt now t st) = None"
  shows "\<exists>p n. py_float rt (tk_last t) = Inr p \<and> py_int rt (tk_lastSize t) = Inr n \<and>
           printed (fst (on_update rt now t st)) =
             printed st @ [[(''ts'', PyInt ts), (''price'', PyFloat p), (''size'', PyInt n),
                            (''exchange'', tick_exchange t)]]"
  using assms(5) unfolding on_update_accept [OF assms(1-4)]
  by (simp split: sum.splits if_splits)

lemma tick_exchange_truthy: "truthy (tick_exchange t)"
  by (simp add: tick_exchange_def py_or_def Let_def split: option.splits)

lemma tick_exchange_cases:
  "tick_exchange t =
     (if (\<exists>v. tk_lastExchange t = Some v \<and> truthy v) then the (tk_lastExchange t)
      else if truthy (tk_exchange t) then tk_exchange t
      else PyStr ''IBKR'')"
  by (auto simp: tick_exchange_def py_or_def Let_def split: option.splits)


text \<open>
  C7.  A tick without a price or a size leaves the state as it is, before any key is
  compared.  A tick whose key equals the retained key leaves the state as it is: nothing
  is printed.  A tick whose key differs becomes the retained key and, when the handler
  returns, exactly one line is printed.  Three ticks with the keys \<open>(1000, 10.5, 5)\<close>,
  \<open>(1000, 10.5, 5)\<close>, \<open>(1001, 10.5, 5)\<close> print exactly two lines, stamped 1000 and 1001.
\<close>

theorem live_dedup:
  "(tk_last t = PyNone \<or> tk_lastSize t = PyNone \<longrightarrow> on_update rt now t st = (st, None)) \<and>
   (tk_last t \<noteq> PyNone \<and> tk_lastSize t \<noteq> PyNone \<and> tick_ts_ms rt now t = Inr ts \<and>
    key_eq (ts, tk_last t, tk_lastSize t) (last_key st)
      \<longrightarrow> on_update rt now t st = (st, None)) \<and>
   (tk_last t \<noteq> PyNone \<and> tk_lastSize t \<noteq> PyNone \<and> tick_ts_ms rt now t = Inr ts \<and>
    \<not> key_eq (ts, tk_last t, tk_lastSize t) (last_key st)
      \<longrightarrow> last_key (fst (on_update rt now t st)) = Some (ts, tk_last t, tk_lastSize t) \<and>
          (snd (on_update rt now t st) = None
             \<longrightarrow> (\<exists>p. printed (fst (on_update rt now t st)) = printed st @ [p]))) \<and>
   (tick_ts_ms rt na a = Inr 1000 \<and> tick_ts_ms rt nb b = Inr 1000 \<and>
    tick_ts_ms rt nc c = Inr 1001 \<and>
    (\<forall>u \<in> {a, b, c}. tk_last u = PyFloat (21 / 2) \<and> tk_lastSize u = PyInt 5 \<and>
                      json_ok (tick_exchange u))
      \<longrightarrow> snd (on_updates rt [(na, a), (nb, b), (nc, c)] live_initial) = None \<and>
          map (\<lambda>p. map_of p ''ts'')
            (printed (fst (on_updates rt [(na, a), (nb, b), (nc, c)] live_initial)))
            = [Some (PyInt 1000), Some (PyInt 1001)])"
proof (intro conjI impI)
  assume "tk_last t = PyNone \<or> tk_lastSize t = PyNone"
  then show "on_update rt now t st = (st, None)" by (rule on_update_missing)
next
  assume "tk_last t \<noteq> PyNone \<and> tk_lastSize t \<noteq> PyNone \<and> tick_ts_ms rt now t = Inr ts \<and>
    key_eq (ts, tk_last t, tk_lastSize t) (last_key st)"
  then show "on_update rt now t st = (st, None)" by (simp add: on_update_duplicate)
next
  assume h: "tk_last t \<noteq> PyNone \<and> tk_lastSize t \<noteq> PyNone \<and> tick_ts_ms rt now t = Inr ts \<and>
    \<not> key_eq (ts, tk_last t, tk_lastSize t) (last_key st)"
  then show "last_key (fst (on_update rt now t st)) = Some (ts, tk_last t, tk_lastSize t)"
    by (simp add: on_update_accept_key)
  assume "snd (on_update rt now t st) = None"
  with h on_update_accept_emit [of t rt now ts st]
  show "\<exists>p. printed (fst (on_update rt now t st)) = printed st @ [p]" by auto
next
  assume h: "tick_ts_ms rt na a = Inr 1000 \<and> tick_ts_ms rt nb b = Inr 1000 \<and>
    tick_ts_ms rt nc c = Inr 1001 \<and>
    (\<forall>u \<in> {a, b, c}. tk_last u = PyFloat (21 / 2) \<and> tk_lastSize u = PyInt 5 \<and>
                      json_ok (tick_exchange u))"
  then have run: "on_updates rt [(na, a), (nb, b), (nc, c)] live_initial =
    (\<lparr>last_key = Some (1001, PyFloat (21 / 2), PyInt 5),
      printed = [[(''ts'', PyInt 1000), (''price'', PyFloat (21 / 2)), (''size'', PyInt 5),
                  (''exchange'', tick_exchange a)],
                 [(''ts'', PyInt 1001), (''price'', PyFloat (21 / 2)), (''size'', PyInt 5),
                  (''exchange'', tick_exchange c)]]\<rparr>, None)"
    by (simp add: on_update_def and_then_def live_initial_def Let_def)
  show "snd (on_updates rt [(na, a), (nb, b), (nc, c)] live_initial) = None"
    unfolding run by simp
  show "map (\<lambda>p. map_of p ''ts'')
            (printed (fst (on_updates rt [(na, a), (nb, b), (nc, c)] live_initial)))
            = [Some (PyInt 1000), Some (PyInt 1001)]"
    unfolding run by simp
qed

theorem live_dedup_witness:
  "on_update cet_runtime 1000 (tick\<lparr>tk_last := PyNone\<rparr>) live_initial = (live_initial, None) \<and>
   on_update cet_runtime 1000 tick
       \<lparr>last_key = Some (1000, PyFloat (21 / 2), PyInt 5), printed = []\<rparr>
     = (\<lparr>last_key = Some (1000, PyFloat (21 / 2), PyInt 5), printed = []\<rparr>, None) \<and>
   last_key (fst (on_update cet_runtime 1000 tick live_initial))
     = Some (1000, tk_last tick, tk_lastSize tick) \<and>
   snd (on_update cet_runtime 1000 tick live_initial) = None \<and>
   (\<exists>p. printed (fst (on_update cet_runtime 1000 tick live_initial)) = printed live_initial @ [p]) \<and>
   map (\<lambda>p. map_of p ''ts'')
     (printed (fst (on_updates cet_runtime [(1000, tick), (1000, tick), (1001, tick)] live_initial)))
     = [Some (PyInt 1000), Some (PyInt 1001)]"
proof -
  let ?seen = "\<lparr>last_key = Some (1000, PyFloat (21 / 2), PyInt 5), printed = []\<rparr>"
  note none = live_dedup [of "tick\<lparr>tk_last := PyNone\<rparr>" cet_runtime 1000 live_initial]
  note dup = live_dedup [of tick cet_runtime 1000 ?seen 1000]
  note acc = live_dedup [of tick cet_runtime 1000 live_initial 1000 1000 tick 1000 tick 1001 tick]
  have h1: "tk_last (tick\<lparr>tk_last := PyNone\<rparr>) = PyNone \<or>
            tk_lastSize (tick\<lparr>tk_last := PyNone\<rparr>) = PyNone" by simp
  have h2: "tk_last tick \<noteq> PyNone \<and> tk_lastSize tick \<noteq> PyNone \<and>
            tick_ts_ms cet_runtime 1000 tick = Inr 1000 \<and>
            key_eq (1000, tk_last tick, tk_lastSize tick) (last_key ?seen)"
    by (simp add: tick_def tick_ts_ms_def)
  have h3: "tk_last tick \<noteq> PyNone \<and> tk_lastSize tick \<noteq> PyNone \<and>
            tick_ts_ms cet_runtime 1000 tick = Inr 1000 \<and>
            \<not> key_eq (1000, tk_last tick, tk_lastSize tick) (last_key live_initial)"
    by (simp add: tick_def tick_ts_ms_def live_initial_def)
  have h4: "tick_ts_ms cet_runtime 1000 tick = Inr 1000 \<and>
            tick_ts_ms cet_runtime 1000 tick = Inr 1000 \<and>
            tick_ts_ms cet_runtime 1001 tick = Inr 1001 \<and>
            (\<forall>u \<in> {tick, tick, tick}. tk_last u = PyFloat (21 / 2) \<and> tk_lastSize u = PyInt 5 \<and>
                      json_ok (tick_exchange u))"
    by (simp add: tick_def tick_ts_ms_def tick_exchange_def py_or_def)
  have ok: "snd (on_update cet_runtime 1000 tick live_initial) = None"
    by (simp add: on_update_def tick_def tick_ts_ms_def live_initial_def tick_exchange_def
          py_or_def Let_def)
  note c3 = acc [THEN conjunct2, THEN conjunct2, THEN conjunct1, THEN mp, OF h3]
  show ?thesis
    by (intro conjI ok none [THEN conjunct1, THEN mp, OF h1]
          dup [THEN conjunct2, THEN conjunct1, THEN mp, OF h2]
          c3 [THEN conjunct1] c3 [THEN conjunct2, THEN mp, OF ok]
          acc [THEN conjunct2, THEN conjunct2, THEN conjunct2, THEN mp, OF h4, THEN conjunct2])
qed

text \<open>
  C10.  A call of the handler prints nothing or one object, and a printed object has an
  \<^verbatim>\<open>exchange\<close> field other than \<^verbatim>\<open>None\<close>: the ticker's \<^verbatim>\<open>lastExchange\<close> when the
  attribute is present and true (non-empty), else the ticker's \<^verbatim>\<open>exchange\<close> when that is
  true (non-empty), else the string \<^verbatim>\<open>IBKR\<close>.  An accepted tick whose handler returns
  prints such an object.
\<close>

theorem live_exchange:
  "(printed (fst (on_update rt now t st)) = printed st \<or>
    (\<exists>p. printed (fst (on_update rt now t st)) = printed st @ [p] \<and>
         has_field p ''exchange'' \<and>
         map_of p ''exchange'' = Some
           (if (\<exists>v. tk_lastExchange t = Some v \<and> truthy v) then the (tk_lastExchange t)
            else if truthy (tk_exchange t) then tk_exchange t
            else PyStr ''IBKR''))) \<and>
   (tk_last t \<noteq> PyNone \<and> tk_lastSize t \<noteq> PyNone \<and> tick_ts_ms rt now t = Inr ts \<and>
    \<not> key_eq (ts, tk_last t, tk_lastSize t) (last_key st) \<and>
    snd (on_update rt now t st) = None
      \<longrightarrow> (\<exists>p. printed (fst (on_update rt now t st)) = printed st @ [p] \<and>
               has_field p ''exchange'' \<and>
               map_of p ''exchange'' = Some
                 (if (\<exists>v. tk_lastExchange t = Some v \<and> truthy v) then the (tk_lastExchange t)
                  else if truthy (tk_exchange t) then tk_exchange t
                  else PyStr ''IBKR'')))"
proof -
  let ?x = "if (\<exists>v. tk_lastExchange t = Some v \<and> truthy v) then the (tk_lastExchange t)
            else if truthy (tk_exchange t) then tk_exchange t
            else PyStr ''IBKR''"
  have x: "tick_exchange t = ?x" by (rule tick_exchange_cases)
  have nn: "tick_exchange t \<noteq> PyNone" using tick_exchange_truthy [of t] by auto
  have emitted: "\<exists>p. printed (fst (on_update rt now t st)) = printed st @ [p] \<and>
               has_field p ''exchange'' \<and> map_of p ''exchange'' = Some ?x"
    if "tk_last t \<noteq> PyNone" "tk_lastSize t \<noteq> PyNone" "tick_ts_ms rt now t = Inr ts'"
      "\<not> key_eq (ts', tk_last t, tk_lastSize t) (last_key st)"
      "snd (on_update rt now t st) = None" for ts'
  proof -
    from on_update_accept_emit [OF that] obtain p n where
      "printed (fst (on_update rt now t st)) =
         printed st @ [[(''ts'', PyInt ts'), (''price'', PyFloat p), (''size'', PyInt n),
                        (''exchange'', tick_exchange t)]]"
      by (elim exE conjE) (rule that)
    moreover have "has_field [(''ts'', PyInt ts'), (''price'', PyFloat p), (''size'', PyInt n),
                        (''exchange'', tick_exchange t)] ''exchange''"
      using nn by (simp add: has_field_def)
    moreover have "map_of [(''ts'', PyInt ts'), (''price'', PyFloat p), (''size'', PyInt n),
                        (''exchange'', tick_exchange t)] ''exchange'' = Some ?x"
      using x by simp
    ultimately show ?thesis by (intro exI conjI)
  qed
  have always: "printed (fst (on_update rt now t st)) = printed st \<or>
    (\<exists>p. printed (fst (on_update rt now t st)) = printed st @ [p] \<and>
         has_field p ''exchange'' \<and> map_of p ''exchange'' = Some ?x)"
  proof (cases "tk_last t = PyNone \<or> tk_lastSize t = PyNone")
    case True
    then show ?thesis by (simp add: on_update_missing)
  next
    case present: False
    show ?thesis
    proof (cases "tick_ts_ms rt now t")
      case (Inl e)
      with present show ?thesis by (simp add: on_update_def)
    next
      case (Inr ts')
      show ?thesis
      proof (cases "key_eq (ts', tk_last t, tk_lastSize t) (last_key st)")
        case True
        with present Inr show ?thesis by (simp add: on_update_duplicate)
      next
        case False
        show ?thesis
        proof (cases "snd (on_update rt now t st) = None")
          case True
          with present Inr False emitted [of ts'] show ?thesis by simp
        next
          case raised: False
          have "printed (fst (on_update rt now t st)) = printed st"
            using raised present Inr False
            by (simp add: on_update_def Let_def split: sum.splits if_splits)
          then show ?thesis ..
        qed
      qed
    qed
  qed
  show ?thesis using always emitted [of ts] by (intro conjI impI) simp_all
qed


theorem live_exchange_witness:
  "(\<exists>p. printed (fst (on_update cet_runtime 1000 tick live_initial)) = printed live_initial @ [p] \<and>
        has_field p ''exchange'' \<and>
        map_of p ''exchange'' = Some
          (if (\<exists>v. tk_lastExchange tick = Some v \<and> truthy v) then the (tk_lastExchange tick)
           else if truthy (tk_exchange tick) then tk_exchange tick
           else PyStr ''IBKR'')) \<and>
   (if (\<exists>v. tk_lastExchange tick = Some v \<and> truthy v) then the (tk_lastExchange tick)
    else if truthy (tk_exchange tick) then tk_exchange tick
    else PyStr ''IBKR'') = PyStr ''SMART''"
proof -
  have h: "tk_last tick \<noteq> PyNone \<and> tk_lastSize tick \<noteq> PyNone \<and>
           tick_ts_ms cet_runtime 1000 tick = Inr 1000 \<and>
           \<not> key_eq (1000, tk_last tick, tk_lastSize tick) (last_key live_initial) \<and>
           snd (on_update cet_runtime 1000 tick live_initial) = None"
    by (simp add: on_update_def tick_def tick_ts_ms_def live_initial_def tick_exchange_def
          py_or_def Let_def)
  have v: "(if (\<exists>v. tk_lastExchange tick = Some v \<and> truthy v) then the (tk_lastExchange tick)
            else if truthy (tk_exchange tick) then tk_exchange tick
            else PyStr ''IBKR'') = PyStr ''SMART''"
    by (simp add: tick_def)
  show ?thesis
    by (intro conjI v
          live_exchange [of cet_runtime 1000 tick live_initial 1000, THEN conjunct2, THEN mp, OF h])
qed


subsection \<open>What the payload builder returns\<close>

lemma map_of_dict_set: "map_of (dict_set d k v) k' = (if k' = k then Some v else map_of d k')"
  by (induction d k v rule: dict_set.induct) auto

lemma has_field_dict_set:
  "has_field (dict_set d k v) k' = (if k' = k then v \<noteq> PyNone else has_field d k')"
  by (simp add: has_field_def map_of_dict_set)

lemma stringify_not_None: "v \<noteq> PyNone \<Longrightarrow> stringify rt v \<noteq> PyNone"
  by (cases v) simp_all

lemma py_or_None: "py_or a b = PyNone \<Longrightarrow> b = PyNone"
  by (cases a) (auto simp: py_or_def split: if_splits)

text \<open>What \<open>build_payload\<close> returns when it returns a payload.\<close>

lemma build_payload_Some:
  assumes "build_payload rt record ov = Inr (Some p)"
  shows "\<exists>ts_ms. normalize_ts rt (r_ts_event record) = Inr (Some ts_ms) \<and>
           map_of p ''ts'' = Some (PyInt ts_ms) \<and>
           map_of p ''symbol'' = Some (stringify rt
             (py_or ov (py_or (py_or (r_symbol record) (r_raw_symbol record))
                (r_instrument_id record)))) \<and>
           canonical p"
  using assms
  by (auto simp: build_payload_def Let_def canonical_def has_field_def map_of_dict_set
        stringify_not_None split: if_splits sum.splits option.splits)

lemma build_payload_None:
  assumes "build_payload rt record ov = Inr None"
  shows "r_ts_event record = PyNone \<or> r_price record = PyNone \<or> r_size record = PyNone \<or>
         py_or ov (py_or (py_or (r_symbol record) (r_raw_symbol record))
                (r_instrument_id record)) = PyNone \<or>
         normalize_ts rt (r_ts_event record) = Inr None"
  using assms
  by (auto simp: build_payload_def Let_def split: if_splits sum.splits option.splits)

lemma build_payload_unrepresentable:
  "normalize_ts rt (r_ts_event record) = Inr None \<Longrightarrow> build_payload rt record ov = Inr None"
  by (simp add: build_payload_def Let_def)



lemma emit_built_Inl:
  "build_payload rt r ov = Inl e \<Longrightarrow> emit_built rt r ov st = (st, Some e)"
  by (simp add: emit_built_def)

lemma emit_built_None:
  "build_payload rt r ov = Inr None \<Longrightarrow> emit_built rt r ov st = (st, None)"
  by (simp add: emit_built_def emit_payload_def)

lemma emit_built_Some:
  "build_payload rt r ov = Inr (Some p) \<Longrightarrow>
   emit_built rt r ov st =
     (if \<forall>v \<in> set (map snd p). json_ok v then (st\<lparr>out := out st @ [p]\<rparr>, None)
      else (st, Some TypeError))"
  by (simp add: emit_built_def emit_payload_def)

lemma emit_built_effect:
  "\<exists>new. fst (emit_built rt r ov st) = st\<lparr>out := out st @ new\<rparr> \<and> list_all canonical new \<and>
         (snd (emit_built rt r ov st) = None \<longrightarrow>
            (case build_payload rt r ov of
               Inl e \<Rightarrow> False | Inr None \<Rightarrow> new = [] | Inr (Some p) \<Rightarrow> new = [p]))"
proof (cases "build_payload rt r ov")
  case (Inl e)
  then show ?thesis by (intro exI [of _ "[]"]) (simp add: emit_built_Inl)
next
  case (Inr q)
  show ?thesis
  proof (cases q)
    case None
    with Inr show ?thesis by (intro exI [of _ "[]"]) (simp add: emit_built_None)
  next
    case (Some p)
    with Inr have b: "build_payload rt r ov = Inr (Some p)" by simp
    have c: "canonical p" using build_payload_Some [OF b] by blast
    show ?thesis
    proof (cases "\<forall>v \<in> set (map snd p). json_ok v")
      case True
      with b c show ?thesis by (intro exI [of _ "[p]"]) (simp add: emit_built_Some)
    next
      case False
      with b show ?thesis by (intro exI [of _ "[]"]) (simp add: emit_built_Some)
    qed
  qed
qed

lemma lookup_out [simp]: "lookup sy (st\<lparr>out := x\<rparr>) = lookup sy st"
  by (simp add: lookup_def fun_eq_iff)


subsection \<open>What the replay steps print\<close>

lemma forced_ok_mono: "forced_ok rt new r iid \<Longrightarrow> set new \<subseteq> set new' \<Longrightarrow> forced_ok rt new' r iid"
  by (auto simp: forced_ok_def split: sum.splits option.splits)

lemma flush_scan_effect:
  "\<exists>new. snd (fst (flush_scan sy rt force es rem st)) = st\<lparr>out := out st @ new\<rparr> \<and>
         list_all canonical new \<and>
         (force \<longrightarrow> fst (fst (flush_scan sy rt force es rem st)) = rem) \<and>
         (force \<longrightarrow> snd (flush_scan sy rt force es rem st) = None \<longrightarrow>
            (\<forall>r iid d. (r, iid, d) \<in> set es \<longrightarrow> \<not> truthy (lookup sy st iid d) \<longrightarrow>
               forced_ok rt new r iid))"
proof (induction es arbitrary: rem st)
  case Nil
  show ?case by (intro exI [of _ "[]"]) simp
next
  case (Cons x rest)
  obtain r iid d where x: "x = (r, iid, d)" by (cases x)
  let ?mapped = "lookup sy st iid d"
  show ?case
  proof (cases "truthy ?mapped \<or> force")
    case False
    then have step: "flush_scan sy rt force (x # rest) rem st =
                     flush_scan sy rt force rest (rem @ [(r, iid, d)]) st"
      by (simp add: x Let_def)
    from Cons.IH [of "rem @ [(r, iid, d)]" st] obtain new where
      "snd (fst (flush_scan sy rt force rest (rem @ [(r, iid, d)]) st)) = st\<lparr>out := out st @ new\<rparr>"
      "list_all canonical new"
      by (elim exE conjE) (rule that)
    with False show ?thesis unfolding step by (intro exI [of _ new]) simp
  next
    case emit: True
    let ?ov = "if truthy ?mapped then ?mapped else PyStr (str_int iid)"
    have step: "flush_scan sy rt force (x # rest) rem st =
                  (case emit_built rt r ?ov st of
                     (st1, Some e) \<Rightarrow> ((rem, st1), Some e)
                   | (st1, None) \<Rightarrow> flush_scan sy rt force rest rem st1)"
      using emit by (auto simp: x Let_def)
    from emit_built_effect [of rt r ?ov st] obtain n1 where n1:
      "fst (emit_built rt r ?ov st) = st\<lparr>out := out st @ n1\<rparr>"
      "list_all canonical n1"
      "snd (emit_built rt r ?ov st) = None \<longrightarrow>
         (case build_payload rt r ?ov of
            Inl e \<Rightarrow> False | Inr None \<Rightarrow> n1 = [] | Inr (Some p) \<Rightarrow> n1 = [p])"
      by (elim exE conjE) (rule that)
    let ?st1 = "st\<lparr>out := out st @ n1\<rparr>"
    show ?thesis
    proof (cases "snd (emit_built rt r ?ov st)")
      case (Some e)
      then have eb: "emit_built rt r ?ov st = (?st1, Some e)"
        using n1(1) by (cases "emit_built rt r ?ov st") simp
      show ?thesis
        unfolding step eb by (intro exI [of _ n1]) (simp add: n1(2))
    next
      case None
      then have eb: "emit_built rt r ?ov st = (?st1, None)"
        using n1(1) by (cases "emit_built rt r ?ov st") simp
      have step2: "flush_scan sy rt force (x # rest) rem st = flush_scan sy rt force rest rem ?st1"
        by (simp add: step eb)
      from Cons.IH [of rem ?st1] obtain n2 where n2:
        "snd (fst (flush_scan sy rt force rest rem ?st1)) = ?st1\<lparr>out := out ?st1 @ n2\<rparr>"
        "list_all canonical n2"
        "force \<longrightarrow> fst (fst (flush_scan sy rt force rest rem ?st1)) = rem"
        "force \<longrightarrow> snd (flush_scan sy rt force rest rem ?st1) = None \<longrightarrow>
            (\<forall>r iid d. (r, iid, d) \<in> set rest \<longrightarrow> \<not> truthy (lookup sy ?st1 iid d) \<longrightarrow>
               forced_ok rt n2 r iid)"
        by (elim exE conjE) (rule that)
      have head: "forced_ok rt (n1 @ n2) r iid" if "\<not> truthy ?mapped"
        using n1(3) None that
        by (auto simp: forced_ok_def split: sum.splits option.splits)
      have tail: "forced_ok rt (n1 @ n2) r' iid' "
        if "force" "snd (flush_scan sy rt force rest rem ?st1) = None"
           "(r', iid', d') \<in> set rest" "\<not> truthy (lookup sy st iid' d')" for r' iid' d'
      proof -
        have "forced_ok rt n2 r' iid'" using n2(4) that by simp
        then show ?thesis by (rule forced_ok_mono) simp
      qed
      show ?thesis
        unfolding step2
        apply (intro exI [of _ "n1 @ n2"])
        using n1(2) n2(1,2,3) head tail by (auto simp: x)
    qed
  qed
qed


lemma emits_refl [simp]: "emits st st"
  by (simp add: emits_def)

lemma emits_trans: "emits a b \<Longrightarrow> emits b c \<Longrightarrow> emits a c"
  by (auto simp: emits_def)

lemma emits_same_out: "out b = out a \<Longrightarrow> emits a b"
  by (simp add: emits_def)

lemma emits_and_then:
  assumes "emits st (fst r)" "\<And>s. emits s (fst (f s))"
  shows "emits st (fst (and_then r f))"
proof (cases r)
  case (Pair s e)
  show ?thesis
  proof (cases e)
    case None
    with Pair assms(1) assms(2) [of s] show ?thesis
      by (auto simp: and_then_def intro: emits_trans)
  next
    case (Some a)
    with Pair assms(1) show ?thesis by (simp add: and_then_def)
  qed
qed

lemma resolve_chunks_frame:
  fixes st :: "'m replay"
  shows "buffered (fst (resolve_chunks sy pend i st)) = buffered st \<and>
         out (fst (resolve_chunks sy pend i st)) = out st"
proof (induction sy pend i st rule: resolve_chunks.induct)
  case (1 sy pend i rs)
  show ?case
  proof (cases "i < length pend")
    case False
    then show ?thesis by (simp add: resolve_chunks_done)
  next
    case True
    show ?thesis
    proof (cases "symbology_resolve sy (requests rs) (take 2000 (drop i pend))")
      case None
      with True show ?thesis by (simp add: resolve_chunks_fail)
    next
      case (Some response)
      with "1.IH" [OF True refl refl Some] show ?thesis
        by (simp add: resolve_chunks_step [OF True Some])
    qed
  qed
qed

lemma resolve_pending_frame:
  fixes st :: "'m replay"
  shows "buffered (fst (resolve_pending sy st)) = buffered st \<and>
         out (fst (resolve_pending sy st)) = out st"
  by (simp add: resolve_pending_def resolve_chunks_frame)

lemma flush_scan_emits: "emits st (snd (fst (flush_scan sy rt force es rem st)))"
  using flush_scan_effect [of sy rt force es rem st] by (auto simp: emits_def)

lemma flush_buffer_emits: "emits st (fst (flush_buffer sy rt force st))"
proof (cases "buffered st = []")
  case True
  then show ?thesis by (simp add: flush_buffer_def)
next
  case False
  have a: "emits st (fst (resolve_pending sy st))"
    by (rule emits_same_out) (simp add: resolve_pending_frame)
  have b: "emits s (fst (case flush_scan sy rt force (buffered s) [] s of
                      ((remaining, st2), Some e) \<Rightarrow> (st2, Some e)
                    | ((remaining, st2), None) \<Rightarrow> (st2\<lparr>buffered := remaining\<rparr>, None)))" for s
    using flush_scan_emits [of s sy rt force "buffered s" "[]"]
    by (auto simp: emits_def split: prod.splits option.splits)
  show ?thesis using False emits_and_then [OF a b] by (simp add: flush_buffer_def)
qed

lemma emit_built_emits: "emits st (fst (emit_built rt r ov st))"
  using emit_built_effect [of rt r ov st] by (auto simp: emits_def)

lemma handle_record_emits: "emits st (fst (handle_record sy rt r st))"
proof -
  have q: "emits st (fst (flush_buffer sy rt False
             ((queue iid st)\<lparr>buffered := buffered (queue iid st) @ [x]\<rparr>)))" for iid x
    by (rule emits_trans [OF _ flush_buffer_emits]) (simp add: emits_def queue_def)
  have q2: "emits st ((queue iid st)\<lparr>buffered := buffered (queue iid st) @ [x]\<rparr>)" for iid x
    by (simp add: emits_def queue_def)
  show ?thesis
    by (auto simp: handle_record_def Let_def emit_built_emits q q2
          split: sum.splits option.splits)
qed

lemma replay_calls_emits: "emits st (fst (replay_calls sy rt records st))"
proof (induction records arbitrary: st)
  case Nil
  show ?case by simp
next
  case (Cons r rest)
  show ?case by (simp add: emits_and_then [OF handle_record_emits Cons.IH])
qed

lemma iterate_records_emits: "emits st (fst (iterate_records sy rt records st))"
proof (induction records arbitrary: st)
  case Nil
  show ?case by simp
next
  case (Cons r rest)
  have inner: "emits s (fst (and_then (if length (buffered s) \<ge> 2000
                         then flush_buffer sy rt False s else (s, None))
                 (iterate_records sy rt rest)))" for s
    by (rule emits_and_then) (simp_all add: flush_buffer_emits Cons.IH)
  show ?case by (simp add: emits_and_then [OF handle_record_emits inner])
qed

lemma fst_finish: "fst (finish r) = fst r"
  by (simp add: finish_def split: prod.splits option.splits)

lemma consume_emits: "emits st (fst (consume sy rt src st))"
proof (cases src)
  case (Replayable kw records)
  let ?first = "if kw then replay_calls sy rt records st else (st, Some TypeError)"
  let ?r = "case ?first of (st1, Some TypeError) \<Rightarrow> replay_calls sy rt records st1 | r \<Rightarrow> r"
  have f: "emits st (fst ?first)" by (simp add: replay_calls_emits)
  have "emits st (fst ?r)"
  proof (cases ?first)
    case (Pair s e)
    with f have fs: "emits st s" by simp
    show ?thesis
    proof (cases "e = Some TypeError")
      case True
      with Pair show ?thesis
        using emits_trans [OF fs replay_calls_emits [of s sy rt records]] by simp
    next
      case False
      with Pair fs show ?thesis
        by (cases e) (auto split: error.splits)
    qed
  qed
  then have "emits st (fst (and_then ?r (flush_buffer sy rt True)))"
    by (rule emits_and_then) (rule flush_buffer_emits)
  moreover have "consume sy rt src st = finish (and_then ?r (flush_buffer sy rt True))"
    unfolding Replayable by (simp only: consume.simps)
  ultimately show ?thesis by (simp only: fst_finish)
next
  case (Iterable records)
  have "emits st (fst (and_then (iterate_records sy rt records st) (flush_buffer sy rt True)))"
    by (rule emits_and_then) (simp_all add: iterate_records_emits flush_buffer_emits)
  then show ?thesis by (simp add: Iterable fst_finish)
next
  case Unsupported
  then show ?thesis by simp
qed


subsection \<open>What the live handler prints\<close>

lemma on_update_printed:
  "\<exists>new. printed (fst (on_update rt now t st)) = printed st @ new \<and> list_all live_fields new"
proof -
  have nn: "tick_exchange t \<noteq> PyNone" using tick_exchange_truthy [of t] by auto
  show ?thesis
  proof (cases "tk_last t = PyNone \<or> tk_lastSize t = PyNone")
    case True
    then show ?thesis by (simp add: on_update_missing)
  next
    case present: False
    show ?thesis
    proof (cases "tick_ts_ms rt now t")
      case (Inl e)
      with present show ?thesis by (simp add: on_update_def)
    next
      case (Inr ts)
      show ?thesis
      proof (cases "key_eq (ts, tk_last t, tk_lastSize t) (last_key st)")
        case True
        with present Inr show ?thesis by (simp add: on_update_duplicate)
      next
        case False
        have acc: "on_update rt now t st = (case py_float rt (tk_last t) of
           Inl e \<Rightarrow> (st\<lparr>last_key := Some (ts, tk_last t, tk_lastSize t)\<rparr>, Some e)
         | Inr p \<Rightarrow>
            (case py_int rt (tk_lastSize t) of
               Inl e \<Rightarrow> (st\<lparr>last_key := Some (ts, tk_last t, tk_lastSize t)\<rparr>, Some e)
             | Inr n \<Rightarrow>
                if json_ok (tick_exchange t)
                then (st\<lparr>last_key := Some (ts, tk_last t, tk_lastSize t),
                         printed := printed st @ [[(''ts'', PyInt ts), (''price'', PyFloat p),
                            (''size'', PyInt n), (''exchange'', tick_exchange t)]]\<rparr>, None)
                else (st\<lparr>last_key := Some (ts, tk_last t, tk_lastSize t)\<rparr>, Some TypeError)))"
          using present Inr False by (intro on_update_accept) simp_all
        show ?thesis unfolding acc using nn
          by (simp add: live_fields_def has_field_def split: sum.splits)
      qed
    qed
  qed
qed

lemma on_updates_printed:
  "\<exists>new. printed (fst (on_updates rt ticks st)) = printed st @ new \<and> list_all live_fields new"
proof (induction ticks arbitrary: st)
  case Nil
  show ?case by simp
next
  case (Cons x rest)
  obtain now t where x: "x = (now, t)" by (cases x)
  from on_update_printed [of rt now t st] obtain n1 where n1:
    "printed (fst (on_update rt now t st)) = printed st @ n1" "list_all live_fields n1"
    by (elim exE conjE) (rule that)
  show ?case
  proof (cases "on_update rt now t st")
    case (Pair s e)
    show ?thesis
    proof (cases e)
      case (Some a)
      with Pair n1 show ?thesis by (intro exI [of _ n1]) (simp add: x and_then_def)
    next
      case None
      from Cons.IH [of s] obtain n2 where n2:
        "printed (fst (on_updates rt rest s)) = printed s @ n2" "list_all live_fields n2"
        by (elim exE conjE) (rule that)
      with Pair None n1 show ?thesis
        by (intro exI [of _ "n1 @ n2"]) (simp add: x and_then_def)
    qed
  qed
qed

subsection \<open>Evaluating the pipeline on the concrete inputs\<close>

lemma normalize_ts_trade:
  "normalize_ts rt (PyInt 1700000000000000000) = Inr (Some 1700000000000)"
proof -
  from int_truediv_million [of 1700000000000000000]
  obtain q where q: "int_truediv 1700000000000000000 1000000 = Inr q"
    "1000000 dvd (1700000000000000000 :: int) \<longrightarrow>
       float_trunc q = 1700000000000000000 div 1000000"
    by auto
  have "float_trunc q = 1700000000000" using q(2) by simp
  then show ?thesis by (simp add: q(1))
qed

lemma str_int_42: "str_int 42 = ''42''"
  by code_simp

lemmas replay_defs =
  handle_record_def trade_def utc_date_def py_or_def lookup_def static_symbology_def
  initial_def queue_def pending_count_def and_then_def flush_buffer_def resolve_pending_def
  resolve_chunks_step resolve_chunks_done directory_def emit_built_def build_payload_def
  emit_payload_def finish_def Let_def normalize_ts_trade str_int_42

subsection \<open>Required fields\<close>

text \<open>
  C1, as the code has it.  Every payload printed by the replay pipeline, on either
  consumption path and from the initial state, has \<^verbatim>\<open>ts\<close>, \<^verbatim>\<open>price\<close>,
  \<^verbatim>\<open>size\<close> and \<^verbatim>\<open>symbol\<close> present and not \<^verbatim>\<open>None\<close>.  Every payload printed by the
  live handler has \<^verbatim>\<open>ts\<close>, \<^verbatim>\<open>price\<close>, \<^verbatim>\<open>size\<close> and \<^verbatim>\<open>exchange\<close> present and not
  \<^verbatim>\<open>None\<close>, and has no \<^verbatim>\<open>symbol\<close> key.
\<close>

theorem emitted_fields:
  "(\<forall>p \<in> set (out (fst (consume sy rt src (initial m0)))). canonical p) \<and>
   (\<forall>p \<in> set (printed (fst (on_updates rt ticks live_initial))). live_fields p)"
proof
  have "emits (initial m0) (fst (consume sy rt src (initial m0)))" by (rule consume_emits)
  then show "\<forall>p \<in> set (out (fst (consume sy rt src (initial m0)))). canonical p"
    by (auto simp: emits_def initial_def list_all_iff)
  from on_updates_printed [of rt ticks live_initial]
  show "\<forall>p \<in> set (printed (fst (on_updates rt ticks live_initial))). live_fields p"
    by (auto simp: live_initial_def list_all_iff)
qed

theorem emitted_fields_witness:
  "out (fst (consume static_symbology cet_runtime (Iterable [trade (PyInt 7)]) (initial []))) =
     [[(''ts'', PyInt 1700000000000), (''price'', PyFloat (21 / 2)), (''size'', PyInt 5),
       (''symbol'', PyStr ''SPY   240119C00450000'')]] \<and>
   canonical [(''ts'', PyInt 1700000000000), (''price'', PyFloat (21 / 2)), (''size'', PyInt 5),
              (''symbol'', PyStr ''SPY   240119C00450000'')] \<and>
   printed (fst (on_updates cet_runtime [(1000, tick)] live_initial)) =
     [[(''ts'', PyInt 1000), (''price'', PyFloat (21 / 2)), (''size'', PyInt 5),
       (''exchange'', PyStr ''SMART'')]] \<and>
   live_fields [(''ts'', PyInt 1000), (''price'', PyFloat (21 / 2)), (''size'', PyInt 5),
                (''exchange'', PyStr ''SMART'')]"
proof -
  note t = emitted_fields [of static_symbology cet_runtime "Iterable [trade (PyInt 7)]" "[]"
      "[(1000, tick)]"]
  have a: "out (fst (consume static_symbology cet_runtime (Iterable [trade (PyInt 7)])
                      (initial []))) =
     [[(''ts'', PyInt 1700000000000), (''price'', PyFloat (21 / 2)), (''size'', PyInt 5),
       (''symbol'', PyStr ''SPY   240119C00450000'')]]"
    by (simp add: replay_defs del: normalize_ts.simps)
  have b: "printed (fst (on_updates cet_runtime [(1000, tick)] live_initial)) =
     [[(''ts'', PyInt 1000), (''price'', PyFloat (21 / 2)), (''size'', PyInt 5),
       (''exchange'', PyStr ''SMART'')]]"
    by (simp add: on_update_def tick_def tick_ts_ms_def live_initial_def tick_exchange_def
          py_or_def and_then_def Let_def)
  have c: "canonical [(''ts'', PyInt 1700000000000), (''price'', PyFloat (21 / 2)),
              (''size'', PyInt 5), (''symbol'', PyStr ''SPY   240119C00450000'')]"
    using t [THEN conjunct1] unfolding a by simp
  have d: "live_fields [(''ts'', PyInt 1000), (''price'', PyFloat (21 / 2)), (''size'', PyInt 5),
                (''exchange'', PyStr ''SMART'')]"
    using t [THEN conjunct2] unfolding b by simp
  show ?thesis by (rule conjI [OF a conjI [OF c conjI [OF b d]]])
qed

text \<open>
  The payload the live handler prints for a tick: four keys, none of them \<^verbatim>\<open>symbol\<close>.
\<close>

theorem live_payload_symbol_counterexample:
  "printed (fst (on_update cet_runtime 1000 tick live_initial)) =
     [[(''ts'', PyInt 1000), (''price'', PyFloat (21 / 2)), (''size'', PyInt 5),
       (''exchange'', PyStr ''SMART'')]] \<and>
   \<not> has_field [(''ts'', PyInt 1000), (''price'', PyFloat (21 / 2)), (''size'', PyInt 5),
                 (''exchange'', PyStr ''SMART'')] ''symbol''"
  by (simp add: on_update_def tick_def tick_ts_ms_def live_initial_def tick_exchange_def
        py_or_def Let_def has_field_def)


subsection \<open>Timestamps that cannot be normalized\<close>

text \<open>
  C8, as the code has it.  In the replay pipeline a record whose \<^verbatim>\<open>ts_event\<close> is missing
  or is text, bytes or a list is dropped: \<^verbatim>\<open>handle_record\<close> returns with the state
  unchanged, the builder returns \<^verbatim>\<open>None\<close>, and the run goes on with the next record.
  In the live pipeline a tick without a time is not dropped: once it passes the
  price, size and duplicate tests it is printed, stamped with the clock reading.
\<close>

theorem unrepresentable_timestamp:
  "((r_ts_event r = PyNone \<or> (\<exists>s. r_ts_event r = PyStr s) \<or> (\<exists>b. r_ts_event r = PyBytes b) \<or>
     (\<exists>xs. r_ts_event r = PyList xs))
      \<longrightarrow> handle_record sy rt r st = (st, None) \<and> build_payload rt r ov = Inr None \<and>
          replay_calls sy rt (r # rest) st = replay_calls sy rt rest st) \<and>
   (tk_time t = None \<and> tk_last t \<noteq> PyNone \<and> tk_lastSize t \<noteq> PyNone \<and>
    \<not> key_eq (now, tk_last t, tk_lastSize t) (last_key ls) \<and>
    snd (on_update rt now t ls) = None
      \<longrightarrow> (\<exists>p. printed (fst (on_update rt now t ls)) = printed ls @ [p] \<and>
               map_of p ''ts'' = Some (PyInt now)))"
proof (intro conjI impI)
  assume "r_ts_event r = PyNone \<or> (\<exists>s. r_ts_event r = PyStr s) \<or>
          (\<exists>b. r_ts_event r = PyBytes b) \<or> (\<exists>xs. r_ts_event r = PyList xs)"
  then have n: "normalize_ts rt (r_ts_event r) = Inr None" by auto
  then show h: "handle_record sy rt r st = (st, None)" by (simp add: handle_record_def Let_def)
  from n show "build_payload rt r ov = Inr None" by (rule build_payload_unrepresentable)
  show "replay_calls sy rt (r # rest) st = replay_calls sy rt rest st"
    by (simp add: h and_then_def)
next
  assume a: "tk_time t = None \<and> tk_last t \<noteq> PyNone \<and> tk_lastSize t \<noteq> PyNone \<and>
    \<not> key_eq (now, tk_last t, tk_lastSize t) (last_key ls) \<and>
    snd (on_update rt now t ls) = None"
  then have ts: "tick_ts_ms rt now t = Inr now" by (simp add: tick_ts_ms_def)
  from on_update_accept_emit [of t rt now now ls] a ts
  show "\<exists>p. printed (fst (on_update rt now t ls)) = printed ls @ [p] \<and>
               map_of p ''ts'' = Some (PyInt now)" by auto
qed

theorem unrepresentable_timestamp_witness:
  "handle_record static_symbology cet_runtime
       (trade (PyInt 7)\<lparr>r_ts_event := PyStr ''2024-01-02''\<rparr>) (initial [])
     = (initial [], None) \<and>
   build_payload cet_runtime (trade (PyInt 7)\<lparr>r_ts_event := PyStr ''2024-01-02''\<rparr>) PyNone
     = Inr None \<and>
   replay_calls static_symbology cet_runtime
       [trade (PyInt 7)\<lparr>r_ts_event := PyStr ''2024-01-02''\<rparr>] (initial [])
     = replay_calls static_symbology cet_runtime [] (initial []) \<and>
   (\<exists>p. printed (fst (on_update cet_runtime 5000 tick live_initial)) = printed live_initial @ [p] \<and>
        map_of p ''ts'' = Some (PyInt 5000))"
proof -
  let ?r = "trade (PyInt 7)\<lparr>r_ts_event := PyStr ''2024-01-02''\<rparr>"
  note t = unrepresentable_timestamp [of ?r static_symbology cet_runtime "initial []" PyNone "[]"
      tick 5000 live_initial]
  have h1: "r_ts_event ?r = PyNone \<or> (\<exists>s. r_ts_event ?r = PyStr s) \<or>
            (\<exists>b. r_ts_event ?r = PyBytes b) \<or> (\<exists>xs. r_ts_event ?r = PyList xs)"
    by simp
  have h2: "tk_time tick = None \<and> tk_last tick \<noteq> PyNone \<and> tk_lastSize tick \<noteq> PyNone \<and>
            \<not> key_eq (5000, tk_last tick, tk_lastSize tick) (last_key live_initial) \<and>
            snd (on_update cet_runtime 5000 tick live_initial) = None"
    by (simp add: on_update_def tick_def tick_ts_ms_def live_initial_def tick_exchange_def
          py_or_def Let_def)
  note a = t [THEN conjunct1, THEN mp, OF h1]
  show ?thesis
    by (intro conjI a [THEN conjunct1] a [THEN conjunct2, THEN conjunct1]
          a [THEN conjunct2, THEN conjunct2] t [THEN conjunct2, THEN mp, OF h2])
qed

text \<open>
  A live tick whose \<^verbatim>\<open>time\<close> is \<^verbatim>\<open>None\<close> is printed with the clock reading 5000.
\<close>

theorem live_missing_time_counterexample:
  "tk_time tick = None \<and>
   on_update cet_runtime 5000 tick live_initial =
     (\<lparr>last_key = Some (5000, PyFloat (21 / 2), PyInt 5),
       printed = [[(''ts'', PyInt 5000), (''price'', PyFloat (21 / 2)), (''size'', PyInt 5),
                   (''exchange'', PyStr ''SMART'')]]\<rparr>, None)"
  by (simp add: on_update_def tick_def tick_ts_ms_def live_initial_def tick_exchange_def
        py_or_def Let_def)


end
